theory Spec2Isabelle
  imports Main "HOL-Library.AList"
begin

section \<open>The calendar values of the standard library\<close>

text \<open>
  The program computes with \<^verbatim>\<open>datetime.date\<close>, \<^verbatim>\<open>datetime.datetime\<close> and
  \<^verbatim>\<open>datetime.timedelta\<close>. A date is represented here by its proleptic
  Gregorian ordinal (\<^verbatim>\<open>date.toordinal()\<close>, day 1 is 0001-01-01), so that comparison of
  dates is comparison of ordinals and adding a \<^verbatim>\<open>timedelta\<close> of whole days is integer
  addition with the library's range check. Every exception the library raises is a value.
\<close>

datatype error = ValueError | OverflowError | KeyError

type_synonym date = int

definition MAXORDINAL :: int where
  "MAXORDINAL = 3652059"

definition is_leap :: "int \<Rightarrow> bool" where
  "is_leap y = (y mod 4 = 0 \<and> (y mod 100 \<noteq> 0 \<or> y mod 400 = 0))"

definition days_before_year :: "int \<Rightarrow> int" where
  "days_before_year year =
     (let y = year - 1 in y * 365 + y div 4 - y div 100 + y div 400)"

definition days_in_month :: "int \<Rightarrow> int \<Rightarrow> int" where
  "days_in_month year month =
     (if month = 2 \<and> is_leap year then 29
      else [31, 28, 31, 30, 31, 30, 31, 31, 30, 31, 30, 31] ! nat (month - 1))"

definition days_before_month :: "int \<Rightarrow> int \<Rightarrow> int" where
  "days_before_month year month =
     [0, 31, 59, 90, 120, 151, 181, 212, 243, 273, 304, 334] ! nat (month - 1)
       + (if month > 2 \<and> is_leap year then 1 else 0)"

definition ymd2ord :: "int \<Rightarrow> int \<Rightarrow> int \<Rightarrow> date" where
  "ymd2ord year month day = days_before_year year + days_before_month year month + day"

text \<open>\<^verbatim>\<open>datetime.date(year, month, day)\<close>: the fields are checked, then stored.\<close>

definition mkdate :: "int \<Rightarrow> int \<Rightarrow> int \<Rightarrow> error + date" where
  "mkdate year month day =
     (if 1 \<le> year \<and> year \<le> 9999 \<and> 1 \<le> month \<and> month \<le> 12
         \<and> 1 \<le> day \<and> day \<le> days_in_month year month
      then Inr (ymd2ord year month day) else Inl ValueError)"

text \<open>
  \<^verbatim>\<open>date + timedelta(days=n)\<close>: the result must lie between 0001-01-01 and
  9999-12-31, otherwise OverflowError.
\<close>

definition date_add :: "date \<Rightarrow> int \<Rightarrow> error + date" where
  "date_add d n = (let ord = d + n in
     if 0 < ord \<and> ord \<le> MAXORDINAL then Inr ord else Inl OverflowError)"

text \<open>\<^verbatim>\<open>date.weekday()\<close>: 0 is Monday, 6 is Sunday.\<close>

definition weekday :: "date \<Rightarrow> int" where
  "weekday d = (d + 6) mod 7"

text \<open>
  \<^verbatim>\<open>date.year\<close>, computed from the ordinal as the library's conversion from an ordinal
  does: whole 400-year, 100-year, 4-year and 1-year cycles are counted off, and the last
  day of a leap cycle belongs to the year before.
\<close>

definition year_of :: "date \<Rightarrow> int" where
  "year_of d =
     (let n = d - 1;
          n400 = n div 146097; n = n mod 146097;
          n100 = n div 36524; n = n mod 36524;
          n4 = n div 1461; n = n mod 1461;
          n1 = n div 365;
          year = n400 * 400 + 1 + n100 * 100 + n4 * 4 + n1
      in if n1 = 4 \<or> n100 = 4 then year - 1 else year)"


text \<open>
  A \<^verbatim>\<open>datetime\<close> is the count of microseconds since the start of day 0, so that its
  calendar date is the quotient by the microseconds of a day; a \<^verbatim>\<open>timedelta\<close> is a
  count of microseconds. Adding a \<^verbatim>\<open>timedelta\<close> raises OverflowError when the date of the
  result leaves the supported range.
\<close>

type_synonym datetime = int

type_synonym timedelta = int

definition US_PER_DAY :: int where
  "US_PER_DAY = 86400000000"

definition datetime_of :: "int \<Rightarrow> int \<Rightarrow> int \<Rightarrow> int \<Rightarrow> int \<Rightarrow> datetime" where
  "datetime_of year month day hour minute =
     ymd2ord year month day * US_PER_DAY + (hour * 3600 + minute * 60) * 1000000"

definition datetime_date :: "datetime \<Rightarrow> date" where
  "datetime_date dt = dt div US_PER_DAY"

definition datetime_add :: "datetime \<Rightarrow> timedelta \<Rightarrow> error + datetime" where
  "datetime_add dt td = (let r = dt + td in
     if 0 < datetime_date r \<and> datetime_date r \<le> MAXORDINAL then Inr r else Inl OverflowError)"

definition minutes :: "int \<Rightarrow> timedelta" where
  "minutes m = m * 60000000"

text \<open>
  \<^verbatim>\<open>datetime.timedelta(days=365.242189)\<close> is 365 days, 20925 seconds and 129600
  microseconds: the constructor rounds the fraction of a day to the microsecond, and
  0.242189 days are 20925.1296 seconds.
\<close>

definition tropical_year :: timedelta where
  "tropical_year = 365 * US_PER_DAY + 20925 * 1000000 + 129600"

section \<open>Generators and dictionaries\<close>

text \<open>
  A generator that is consumed to its end is described by the items it yields, in order,
  and by how it ends: it returns (\<open>None\<close>) or it raises (\<open>Some e\<close>). The lazy
  combinators of \<^verbatim>\<open>itertools\<close> act on this description: \<^verbatim>\<open>takewhile\<close> stops
  at the first item that fails its test and so never reaches the end of its source,
  \<^verbatim>\<open>dropwhile\<close> runs to the end of its source when no item passes.
\<close>

type_synonym 'a gen = "'a list \<times> error option"

definition gen_empty :: "'a gen" where
  "gen_empty = ([], None)"

definition gen_raise :: "error \<Rightarrow> 'a gen" where
  "gen_raise e = ([], Some e)"

definition gen_yield :: "'a \<Rightarrow> 'a gen \<Rightarrow> 'a gen" where
  "gen_yield x g = (x # fst g, snd g)"

definition gen_chain :: "'a gen \<Rightarrow> 'a gen \<Rightarrow> 'a gen" where
  "gen_chain g h = (case snd g of None \<Rightarrow> (fst g @ fst h, snd h) | Some e \<Rightarrow> g)"

definition gen_bind :: "error + 'a \<Rightarrow> ('a \<Rightarrow> 'b gen) \<Rightarrow> 'b gen" where
  "gen_bind r f = (case r of Inl e \<Rightarrow> gen_raise e | Inr x \<Rightarrow> f x)"

lemma gen_bind_cong [fundef_cong]:
  "r = r' \<Longrightarrow> (\<And>x. r' = Inr x \<Longrightarrow> f x = f' x) \<Longrightarrow> gen_bind r f = gen_bind r' f'"
  by (auto simp: gen_bind_def split: sum.splits)

definition gen_dropwhile :: "('a \<Rightarrow> bool) \<Rightarrow> 'a gen \<Rightarrow> 'a gen" where
  "gen_dropwhile P g = (dropWhile P (fst g), snd g)"

definition gen_takewhile :: "('a \<Rightarrow> bool) \<Rightarrow> 'a gen \<Rightarrow> 'a gen" where
  "gen_takewhile P g = (takeWhile P (fst g), if list_all P (fst g) then snd g else None)"

definition gen_map :: "('a \<Rightarrow> 'b) \<Rightarrow> 'a gen \<Rightarrow> 'b gen" where
  "gen_map f g = (map f (fst g), snd g)"

definition gen_filter :: "('a \<Rightarrow> bool) \<Rightarrow> 'a gen \<Rightarrow> 'a gen" where
  "gen_filter P g = (filter P (fst g), snd g)"

text \<open>\<^verbatim>\<open>for x in g: body(x)\<close>, where the body yields items and may raise.\<close>

fun gen_for_list :: "('a \<Rightarrow> 'b gen) \<Rightarrow> 'a list \<Rightarrow> error option \<Rightarrow> 'b gen" where
  "gen_for_list body [] e = ([], e)"
| "gen_for_list body (x # xs) e = gen_chain (body x) (gen_for_list body xs e)"

definition gen_for :: "('a \<Rightarrow> 'b gen) \<Rightarrow> 'a gen \<Rightarrow> 'b gen" where
  "gen_for body g = gen_for_list body (fst g) (snd g)"

text \<open>
  A \<^verbatim>\<open>dict\<close> is an association list in insertion order with one pair for each key;
  storing under a key that is present replaces the value in place.
\<close>

type_synonym ('k, 'v) dict = "('k \<times> 'v) list"

definition dict_contains :: "('k, 'v) dict \<Rightarrow> 'k \<Rightarrow> bool" where
  "dict_contains h k = (map_of h k \<noteq> None)"

definition dict_update :: "('k, 'v) dict \<Rightarrow> ('k \<times> 'v) list \<Rightarrow> ('k, 'v) dict" where
  "dict_update h ps = fold (\<lambda>p h. AList.update (fst p) (snd p) h) ps h"

definition dict_of :: "('k \<times> 'v) gen \<Rightarrow> error + ('k, 'v) dict" where
  "dict_of g = (case snd g of Some e \<Rightarrow> Inl e | None \<Rightarrow> Inr (dict_update [] (fst g)))"


section \<open>The program\<close>

text \<open>
  The effective dates of the law and of its amendments. The literal dates of the source
  are valid, so each is written as its ordinal.
\<close>

definition DATE_00 :: date where "DATE_00 = ymd2ord 1948 7 23"
definition DATE_01 :: date where "DATE_01 = ymd2ord 1966 6 25"
definition DATE_KE :: date where "DATE_KE = ymd2ord 1966 12 9"
definition DATE_02 :: date where "DATE_02 = ymd2ord 1973 4 12"
definition DATE_03 :: date where "DATE_03 = ymd2ord 1985 12 27"
definition DATE_04 :: date where "DATE_04 = ymd2ord 1989 2 17"
definition DATE_05 :: date where "DATE_05 = ymd2ord 1996 1 1"
definition DATE_HM :: date where "DATE_HM = ymd2ord 2000 1 1"
definition DATE_06 :: date where "DATE_06 = ymd2ord 2003 1 1"
definition DATE_07 :: date where "DATE_07 = ymd2ord 2007 1 1"
definition DATE_08 :: date where "DATE_08 = ymd2ord 2016 1 1"
definition DATE_TO :: date where "DATE_TO = ymd2ord 2018 6 20"
definition DATE_TT :: date where "DATE_TT = ymd2ord 2019 5 1"
definition DATE_09 :: date where "DATE_09 = ymd2ord 2020 1 1"

text \<open>
  The labels are the strings of the source, named here by their readings: the seventeen
  national holidays, the five labels of the one-off events, \<^verbatim>\<open>furikae\<close> (substitute
  holiday) and \<^verbatim>\<open>kokuminno\<close> (citizens' holiday).
\<close>

datatype holiday_name =
    Ganjitsu | Seijinnohi | Kenkokukinennohi | Shunbunnohi | Showanohi | Kenpokinenbi
  | Midorinohi | Kodomonohi | Uminohi | Yamanohi | Keironohi | Shubunnohi | Supotsunohi
  | Taikunohi | Bunkanohi | Kinrokanshanohi | Tennotanjobi
  | Akihito_kekkonnogi | Taisonorei | Sokuireiseidennogi | Naruhito_kekkonnogi | Sokuinohi
  | Furikae | Kokuminno

text \<open>
  An instance of \<^verbatim>\<open>JHoliday\<close> holds the two ends of its range. Names of the source
  that begin with an underscore carry the prefix \<open>u_\<close>.
\<close>

record jholiday =
  min_date :: date
  max_date :: date

definition from_year :: "int \<Rightarrow> int \<Rightarrow> error + jholiday" where
  "from_year min_year max_year =
     (case mkdate min_year 1 1 of Inl e \<Rightarrow> Inl e
      | Inr lo \<Rightarrow> (case mkdate max_year 12 31 of Inl e \<Rightarrow> Inl e
          | Inr hi \<Rightarrow> Inr \<lparr>min_date = lo, max_date = hi\<rparr>))"

definition u_sorted_dates_filter :: "date gen \<Rightarrow> date option \<Rightarrow> date option \<Rightarrow> date gen" where
  "u_sorted_dates_filter it lo hi =
     (let it = (case lo of None \<Rightarrow> it | Some a \<Rightarrow> gen_dropwhile (\<lambda>x. a > x) it);
          it = (case hi of None \<Rightarrow> it | Some b \<Rightarrow> gen_takewhile (\<lambda>x. b \<ge> x) it)
      in it)"

definition u_holidays_filter ::
  "(date \<times> holiday_name) gen \<Rightarrow> date \<Rightarrow> date \<Rightarrow> (date \<times> holiday_name) gen" where
  "u_holidays_filter it lo hi = gen_filter (\<lambda>p. lo \<le> fst p \<and> fst p \<le> hi) it"

text \<open>
  \<^verbatim>\<open>_iter_dates\<close>: the loop variable is a date of the given month and day, so the state
  of the loop is its year; building the date of the next year raises ValueError when
  that year is 10000 (or when the month and day do not exist in it).
\<close>

function u_iter_dates_loop :: "int \<Rightarrow> int \<Rightarrow> int \<Rightarrow> date gen" where
  "u_iter_dates_loop year month day =
     (case mkdate year month day of
        Inl e \<Rightarrow> gen_raise e
      | Inr d \<Rightarrow> gen_yield d (u_iter_dates_loop (year + 1) month day))"
  by pat_completeness auto
termination
  by (relation "measure (\<lambda>(year, month, day). nat (10000 - year))")
    (auto simp: mkdate_def split: if_splits)

declare u_iter_dates_loop.simps [simp del]

definition u_iter_dates :: "int \<Rightarrow> int \<Rightarrow> date gen" where
  "u_iter_dates month day = u_iter_dates_loop (year_of DATE_00) month day"

definition iter_dates :: "jholiday \<Rightarrow> int \<Rightarrow> int \<Rightarrow> date gen" where
  "iter_dates self month day =
     u_sorted_dates_filter (u_iter_dates month day) (Some (min_date self)) (Some (max_date self))"

text \<open>
  \<^verbatim>\<open>_iter_nth_monday\<close>: the two products and the sum of \<^verbatim>\<open>timedelta\<close>s are a count of
  days, added to the date with its range check.
\<close>

definition u_iter_nth_monday :: "int \<Rightarrow> int \<Rightarrow> date gen" where
  "u_iter_nth_monday month n =
     gen_for (\<lambda>date. gen_bind (date_add date (7 * (n - 1) + 1 * ((7 - weekday date) mod 7)))
                (\<lambda>date. gen_yield date gen_empty))
       (u_iter_dates month 1)"

definition iter_nth_monday :: "jholiday \<Rightarrow> int \<Rightarrow> int \<Rightarrow> date gen" where
  "iter_nth_monday self month n =
     u_sorted_dates_filter (u_iter_nth_monday month n) (Some (min_date self)) (Some (max_date self))"

function iter_all_dates_loop :: "date \<Rightarrow> date \<Rightarrow> date gen" where
  "iter_all_dates_loop date hi =
     (if date \<le> hi
      then gen_yield date (gen_bind (date_add date 1) (\<lambda>date. iter_all_dates_loop date hi))
      else gen_empty)"
  by pat_completeness auto
termination
  by (relation "measure (\<lambda>(date, hi). nat (hi + 1 - date))")
    (auto simp: date_add_def Let_def split: if_splits)

declare iter_all_dates_loop.simps [simp del]

definition iter_all_dates :: "jholiday \<Rightarrow> date gen" where
  "iter_all_dates self = iter_all_dates_loop (min_date self) (max_date self)"


subsection \<open>The rule catalogue\<close>

text \<open>\<^verbatim>\<open>yield from ((date, h) for date in it)\<close>.\<close>

definition labelled :: "holiday_name \<Rightarrow> date gen \<Rightarrow> (date \<times> holiday_name) gen" where
  "labelled h it = gen_map (\<lambda>date. (date, h)) it"

text \<open>The literal date of 2020 that replaces the normal rule of three holidays.\<close>

definition override_2020 :: "jholiday \<Rightarrow> date \<Rightarrow> holiday_name \<Rightarrow> (date \<times> holiday_name) gen" where
  "override_2020 self d2020 h =
     (if min_date self \<le> d2020 \<and> d2020 \<le> max_date self
      then gen_yield (d2020, h) gen_empty else gen_empty)"

definition ganjitsu :: "jholiday \<Rightarrow> (date \<times> holiday_name) gen" where
  "ganjitsu self =
     labelled Ganjitsu (u_sorted_dates_filter (iter_dates self 1 1) (Some DATE_00) None)"

definition seijinnohi :: "jholiday \<Rightarrow> (date \<times> holiday_name) gen" where
  "seijinnohi self =
     gen_chain
       (labelled Seijinnohi
          (u_sorted_dates_filter (iter_dates self 1 15) (Some DATE_00) (Some DATE_HM)))
       (labelled Seijinnohi
          (u_sorted_dates_filter (iter_nth_monday self 1 2) (Some DATE_HM) None))"

definition kenkokukinennohi :: "jholiday \<Rightarrow> (date \<times> holiday_name) gen" where
  "kenkokukinennohi self =
     labelled Kenkokukinennohi (u_sorted_dates_filter (iter_dates self 2 11) (Some DATE_KE) None)"

text \<open>
  The two loops of \<^verbatim>\<open>shunbunnohi\<close>: backward from the anchor while the date is not below
  the lower end, forward from one step after the shifted anchor while the date is below
  the upper end.
\<close>

function shunbunnohi_back :: "jholiday \<Rightarrow> date \<Rightarrow> datetime \<Rightarrow> (date \<times> holiday_name) gen" where
  "shunbunnohi_back self lo dt =
     (if datetime_date dt \<ge> lo
      then gen_chain
             (if datetime_date dt < max_date self
              then gen_yield (datetime_date dt, Shunbunnohi) gen_empty else gen_empty)
             (gen_bind (datetime_add dt (- tropical_year))
                (\<lambda>dt. shunbunnohi_back self lo dt))
      else gen_empty)"
  by pat_completeness auto
termination
  by (relation "measure (\<lambda>(self, lo, dt). nat dt)")
    (auto simp: datetime_add_def datetime_date_def Let_def tropical_year_def US_PER_DAY_def
          split: if_splits)

declare shunbunnohi_back.simps [simp del]

function shunbunnohi_forward :: "jholiday \<Rightarrow> date \<Rightarrow> datetime \<Rightarrow> (date \<times> holiday_name) gen" where
  "shunbunnohi_forward self lo dt =
     (if datetime_date dt < max_date self
      then gen_chain
             (if datetime_date dt \<ge> lo
              then gen_yield (datetime_date dt, Shunbunnohi) gen_empty else gen_empty)
             (gen_bind (datetime_add dt tropical_year)
                (\<lambda>dt. shunbunnohi_forward self lo dt))
      else gen_empty)"
  by pat_completeness auto
termination
  by (relation "measure (\<lambda>(self, lo, dt). nat ((MAXORDINAL + 1) * US_PER_DAY - dt))")
    (auto simp: datetime_add_def datetime_date_def Let_def tropical_year_def US_PER_DAY_def
          MAXORDINAL_def split: if_splits)

declare shunbunnohi_forward.simps [simp del]

definition shunbunnohi :: "jholiday \<Rightarrow> (date \<times> holiday_name) gen" where
  "shunbunnohi self =
     (let dt2018 = datetime_of 2018 3 21 1 15;
          dt2018 = dt2018 - minutes 8;
          lo = max DATE_00 (min_date self);
          dt2018' = dt2018 + minutes (8 + 4)
      in gen_chain (shunbunnohi_back self lo dt2018)
           (gen_bind (datetime_add dt2018' tropical_year)
              (\<lambda>dt. shunbunnohi_forward self lo dt)))"

definition showanohi :: "jholiday \<Rightarrow> (date \<times> holiday_name) gen" where
  "showanohi self =
     labelled Showanohi (u_sorted_dates_filter (iter_dates self 4 29) (Some DATE_07) None)"

definition kenpokinenbi :: "jholiday \<Rightarrow> (date \<times> holiday_name) gen" where
  "kenpokinenbi self =
     labelled Kenpokinenbi (u_sorted_dates_filter (iter_dates self 5 3) (Some DATE_00) None)"

definition midorinohi :: "jholiday \<Rightarrow> (date \<times> holiday_name) gen" where
  "midorinohi self =
     gen_chain
       (labelled Midorinohi
          (u_sorted_dates_filter (iter_dates self 4 29) (Some DATE_04) (Some DATE_07)))
       (labelled Midorinohi
          (u_sorted_dates_filter (iter_dates self 5 4) (Some DATE_07) None))"

definition kodomonohi :: "jholiday \<Rightarrow> (date \<times> holiday_name) gen" where
  "kodomonohi self =
     labelled Kodomonohi (u_sorted_dates_filter (iter_dates self 5 5) (Some DATE_00) None)"

definition uminohi :: "jholiday \<Rightarrow> (date \<times> holiday_name) gen" where
  "uminohi self =
     gen_chain
       (labelled Uminohi
          (u_sorted_dates_filter (iter_dates self 7 20) (Some DATE_05) (Some DATE_06)))
       (gen_chain
          (labelled Uminohi
             (gen_filter (\<lambda>date. year_of date \<noteq> 2020)
                (u_sorted_dates_filter (iter_nth_monday self 7 3) (Some DATE_06) None)))
          (override_2020 self (ymd2ord 2020 7 23) Uminohi))"

definition yamanohi :: "jholiday \<Rightarrow> (date \<times> holiday_name) gen" where
  "yamanohi self =
     gen_chain
       (labelled Yamanohi
          (gen_filter (\<lambda>date. year_of date \<noteq> 2020)
             (u_sorted_dates_filter (iter_dates self 8 11) (Some DATE_08) None)))
       (override_2020 self (ymd2ord 2020 8 10) Yamanohi)"

definition keironohi :: "jholiday \<Rightarrow> (date \<times> holiday_name) gen" where
  "keironohi self =
     gen_chain
       (labelled Keironohi
          (u_sorted_dates_filter (iter_dates self 9 15) (Some DATE_01) (Some DATE_06)))
       (labelled Keironohi
          (u_sorted_dates_filter (iter_nth_monday self 9 3) (Some DATE_06) None))"

text \<open>
  The two loops of \<^verbatim>\<open>shubunnohi\<close>: here each test of the other end of the range
  stands once, in front of its loop.
\<close>

function shubunnohi_back :: "date \<Rightarrow> datetime \<Rightarrow> (date \<times> holiday_name) gen" where
  "shubunnohi_back lo dt =
     (if datetime_date dt \<ge> lo
      then gen_yield (datetime_date dt, Shubunnohi)
             (gen_bind (datetime_add dt (- tropical_year)) (\<lambda>dt. shubunnohi_back lo dt))
      else gen_empty)"
  by pat_completeness auto
termination
  by (relation "measure (\<lambda>(lo, dt). nat dt)")
    (auto simp: datetime_add_def datetime_date_def Let_def tropical_year_def US_PER_DAY_def
          split: if_splits)

declare shubunnohi_back.simps [simp del]

function shubunnohi_forward :: "jholiday \<Rightarrow> datetime \<Rightarrow> (date \<times> holiday_name) gen" where
  "shubunnohi_forward self dt =
     (if datetime_date dt < max_date self
      then gen_yield (datetime_date dt, Shubunnohi)
             (gen_bind (datetime_add dt tropical_year) (\<lambda>dt. shubunnohi_forward self dt))
      else gen_empty)"
  by pat_completeness auto
termination
  by (relation "measure (\<lambda>(self, dt). nat ((MAXORDINAL + 1) * US_PER_DAY - dt))")
    (auto simp: datetime_add_def datetime_date_def Let_def tropical_year_def US_PER_DAY_def
          MAXORDINAL_def split: if_splits)

declare shubunnohi_forward.simps [simp del]

definition shubunnohi :: "jholiday \<Rightarrow> (date \<times> holiday_name) gen" where
  "shubunnohi self =
     (let dt2018 = datetime_of 2018 9 23 10 54;
          dt2018 = dt2018 - minutes 2;
          lo = max DATE_00 (min_date self)
      in gen_chain
           (if datetime_date dt2018 < max_date self then shubunnohi_back lo dt2018
            else gen_empty)
           (gen_bind (datetime_add dt2018 tropical_year)
              (\<lambda>dt. if datetime_date dt \<ge> lo then shubunnohi_forward self dt
                    else gen_empty)))"

definition supotsunohi :: "jholiday \<Rightarrow> (date \<times> holiday_name) gen" where
  "supotsunohi self =
     gen_chain
       (labelled Supotsunohi
          (gen_filter (\<lambda>date. year_of date \<noteq> 2020)
             (u_sorted_dates_filter (iter_nth_monday self 10 2) (Some DATE_09) None)))
       (override_2020 self (ymd2ord 2020 7 24) Supotsunohi)"

definition taikunohi :: "jholiday \<Rightarrow> (date \<times> holiday_name) gen" where
  "taikunohi self =
     gen_chain
       (labelled Taikunohi
          (u_sorted_dates_filter (iter_dates self 10 10) (Some DATE_01) (Some DATE_HM)))
       (labelled Taikunohi
          (u_sorted_dates_filter (iter_nth_monday self 10 2) (Some DATE_HM) (Some DATE_09)))"

definition bunkanohi :: "jholiday \<Rightarrow> (date \<times> holiday_name) gen" where
  "bunkanohi self =
     labelled Bunkanohi (u_sorted_dates_filter (iter_dates self 11 3) (Some DATE_00) None)"

definition kinrokanshanohi :: "jholiday \<Rightarrow> (date \<times> holiday_name) gen" where
  "kinrokanshanohi self =
     labelled Kinrokanshanohi (u_sorted_dates_filter (iter_dates self 11 23) (Some DATE_00) None)"

definition tennotanjobi :: "jholiday \<Rightarrow> (date \<times> holiday_name) gen" where
  "tennotanjobi self =
     gen_chain
       (labelled Tennotanjobi
          (u_sorted_dates_filter (iter_dates self 4 29) (Some DATE_00) (Some DATE_04)))
       (gen_chain
          (labelled Tennotanjobi
             (u_sorted_dates_filter (iter_dates self 12 23) (Some DATE_04) (Some DATE_TT)))
          (labelled Tennotanjobi
             (u_sorted_dates_filter (iter_dates self 2 23) (Some DATE_TT) None)))"

definition u_special :: "(date \<times> holiday_name) gen" where
  "u_special =
     ([(ymd2ord 1959 4 10, Akihito_kekkonnogi),
       (ymd2ord 1989 2 24, Taisonorei),
       (ymd2ord 1990 11 12, Sokuireiseidennogi),
       (ymd2ord 1993 6 9, Naruhito_kekkonnogi),
       (ymd2ord 2019 5 1, Sokuinohi),
       (ymd2ord 2019 10 22, Sokuireiseidennogi)], None)"

definition special :: "jholiday \<Rightarrow> (date \<times> holiday_name) gen" where
  "special self = u_holidays_filter u_special (min_date self) (max_date self)"


subsection \<open>The derived holidays\<close>

text \<open>
  \<^verbatim>\<open>while one in holidays: one += datetime.timedelta(days=1)\<close>: the loop ends at the
  first date that is not a key, or with OverflowError past the last date.
\<close>

function skip_holidays :: "(date, holiday_name) dict \<Rightarrow> date \<Rightarrow> error + date" where
  "skip_holidays holidays one =
     (if dict_contains holidays one
      then (case date_add one 1 of Inl e \<Rightarrow> Inl e | Inr one \<Rightarrow> skip_holidays holidays one)
      else Inr one)"
  by pat_completeness auto
termination
  by (relation "measure (\<lambda>(holidays, one). nat (MAXORDINAL + 1 - one))")
    (auto simp: date_add_def Let_def split: if_splits)

declare skip_holidays.simps [simp del]

text \<open>
  The Sunday branch of the three periods: \<open>Some one\<close> when the branch yields the pair
  of \<open>one\<close> and \<^verbatim>\<open>furikae\<close> (in the later two periods it then continues with the next
  date), \<open>None\<close> when it yields nothing.
\<close>

definition furikae_next_day ::
  "jholiday \<Rightarrow> (date, holiday_name) dict \<Rightarrow> date \<Rightarrow> error + date option" where
  "furikae_next_day self holidays date' =
     (if weekday date' = 6
      then (case date_add date' 1 of Inl e \<Rightarrow> Inl e
            | Inr one \<Rightarrow>
                if \<not> dict_contains holidays one \<and> one \<le> max_date self
                then Inr (Some one) else Inr None)
      else Inr None)"

definition furikae_next_free ::
  "jholiday \<Rightarrow> (date, holiday_name) dict \<Rightarrow> date \<Rightarrow> error + date option" where
  "furikae_next_free self holidays date' =
     (if weekday date' = 6
      then (case date_add date' 1 of Inl e \<Rightarrow> Inl e
            | Inr one \<Rightarrow>
                (case skip_holidays holidays one of Inl e \<Rightarrow> Inl e
                 | Inr one \<Rightarrow> if one \<le> max_date self then Inr (Some one) else Inr None))
      else Inr None)"

text \<open>The test of a date between two holidays, the same text in the later two periods.\<close>

definition sandwich ::
  "jholiday \<Rightarrow> (date, holiday_name) dict \<Rightarrow> date \<Rightarrow> (date \<times> holiday_name) gen" where
  "sandwich self holidays date' =
     gen_bind (date_add date' 2) (\<lambda>two.
       if dict_contains holidays two
       then gen_bind (date_add date' 1) (\<lambda>one.
              if \<not> dict_contains holidays one \<and> weekday one \<noteq> 6 \<and> one \<le> max_date self
              then gen_yield (one, Kokuminno) gen_empty else gen_empty)
       else gen_empty)"

text \<open>The body of the loop of \<^verbatim>\<open>kokuminnokyujitsu\<close> for one date.\<close>

definition kokuminnokyujitsu_body ::
  "jholiday \<Rightarrow> (date, holiday_name) dict \<Rightarrow> date \<Rightarrow> (date \<times> holiday_name) gen" where
  "kokuminnokyujitsu_body self holidays date' =
     (if date' < DATE_02 then gen_empty
      else if date' < DATE_03 then
        (if dict_contains holidays date'
         then gen_bind (furikae_next_day self holidays date') (\<lambda>r.
                case r of Some one \<Rightarrow> gen_yield (one, Furikae) gen_empty
                | None \<Rightarrow> gen_empty)
         else gen_empty)
      else if date' < DATE_07 then
        (if dict_contains holidays date'
         then gen_bind (furikae_next_day self holidays date') (\<lambda>r.
                case r of Some one \<Rightarrow> gen_yield (one, Furikae) gen_empty
                | None \<Rightarrow> sandwich self holidays date')
         else gen_empty)
      else
        (if dict_contains holidays date'
         then gen_bind (furikae_next_free self holidays date') (\<lambda>r.
                case r of Some one \<Rightarrow> gen_yield (one, Furikae) gen_empty
                | None \<Rightarrow> sandwich self holidays date')
         else gen_empty))"

definition kokuminnokyujitsu ::
  "jholiday \<Rightarrow> (date, holiday_name) dict \<Rightarrow> (date \<times> holiday_name) gen" where
  "kokuminnokyujitsu self holidays =
     gen_for (kokuminnokyujitsu_body self holidays) (iter_all_dates self)"

subsection \<open>The resolved map\<close>

definition base_chain :: "jholiday \<Rightarrow> (date \<times> holiday_name) gen" where
  "base_chain self =
     foldr gen_chain
       [ganjitsu self, seijinnohi self, kenkokukinennohi self, shunbunnohi self,
        showanohi self, kenpokinenbi self, midorinohi self, kodomonohi self, uminohi self,
        yamanohi self, keironohi self, shubunnohi self, supotsunohi self, taikunohi self,
        bunkanohi self, kinrokanshanohi self, tennotanjobi self, special self]
       gen_empty"

text \<open>
  \<^verbatim>\<open>holidays.update(self.kokuminnokyujitsu(dict(holidays)))\<close>: the generator is handed
  a copy of the dictionary and runs one date at a time while \<^verbatim>\<open>update\<close> stores its
  pairs in the original. The two dictionaries are two objects: the state of the loop is
  the pair of them.
\<close>

record holidays_state =
  live :: "(date, holiday_name) dict"
  snapshot :: "(date, holiday_name) dict"

fun update_loop ::
  "jholiday \<Rightarrow> holidays_state \<Rightarrow> date list \<Rightarrow> error option \<Rightarrow> error + holidays_state" where
  "update_loop self s [] None = Inr s"
| "update_loop self s [] (Some e) = Inl e"
| "update_loop self s (date' # dates) e =
     (case kokuminnokyujitsu_body self (snapshot s) date' of
        (ps, Some err) \<Rightarrow> Inl err
      | (ps, None) \<Rightarrow> update_loop self (s\<lparr>live := dict_update (live s) ps\<rparr>) dates e)"

definition u_holidays :: "jholiday \<Rightarrow> error + (date, holiday_name) dict" where
  "u_holidays self =
     (case dict_of (base_chain self) of
        Inl e \<Rightarrow> Inl e
      | Inr holidays \<Rightarrow>
          (case update_loop self \<lparr>live = holidays, snapshot = holidays\<rparr>
                  (fst (iter_all_dates self)) (snd (iter_all_dates self)) of
             Inl e \<Rightarrow> Inl e
           | Inr s \<Rightarrow> Inr (live s)))"

text \<open>The operations of the mapping.\<close>

definition contains :: "jholiday \<Rightarrow> date \<Rightarrow> error + bool" where
  "contains self key =
     (case u_holidays self of Inl e \<Rightarrow> Inl e | Inr h \<Rightarrow> Inr (dict_contains h key))"

definition getitem :: "jholiday \<Rightarrow> date \<Rightarrow> error + holiday_name" where
  "getitem self key =
     (case u_holidays self of Inl e \<Rightarrow> Inl e
      | Inr h \<Rightarrow> (case map_of h key of None \<Rightarrow> Inl KeyError | Some v \<Rightarrow> Inr v))"

definition iter :: "jholiday \<Rightarrow> error + date list" where
  "iter self = (case u_holidays self of Inl e \<Rightarrow> Inl e | Inr h \<Rightarrow> Inr (map fst h))"

definition len :: "jholiday \<Rightarrow> error + nat" where
  "len self = (case u_holidays self of Inl e \<Rightarrow> Inl e | Inr h \<Rightarrow> Inr (length h))"

text \<open>\<^verbatim>\<open>get\<close> of the mapping: the lookup with KeyError turned into \<open>None\<close>.\<close>

definition get :: "jholiday \<Rightarrow> date \<Rightarrow> error + holiday_name option" where
  "get self key =
     (case getitem self key of
        Inl KeyError \<Rightarrow> Inr None
      | Inl e \<Rightarrow> Inl e
      | Inr v \<Rightarrow> Inr (Some v))"


section \<open>Calendar arithmetic\<close>


lemma div_step:
  fixes y k :: int
  assumes k: "0 < k"
  shows "y div k = (y - 1) div k + (if y mod k = 0 then 1 else 0)"
proof (cases "y mod k = 0")
  case True
  have eq: "y - 1 = k * (y div k - 1) + (k - 1)"
    using True mult_div_mod_eq [of k y] by (simp add: algebra_simps)
  have "(k * (y div k - 1) + (k - 1)) div k = (y div k - 1) + (k - 1) div k"
    using k by (simp only: div_mult_self4)
  moreover have "(k - 1) div k = 0" using k by (simp add: div_pos_pos_trivial)
  ultimately have "(y - 1) div k = y div k - 1" by (simp only: eq)
  then show ?thesis using True by simp
next
  case False
  have "0 \<le> y mod k" using k by simp
  then have bounds: "0 < y mod k" "y mod k < k"
    using False k by (linarith, simp)
  have eq: "y - 1 = k * (y div k) + (y mod k - 1)"
    using mult_div_mod_eq [of k y] by (simp add: algebra_simps)
  have "(k * (y div k) + (y mod k - 1)) div k = y div k + (y mod k - 1) div k"
    using k by (simp only: div_mult_self4)
  moreover have "(y mod k - 1) div k = 0" using bounds by (simp add: div_pos_pos_trivial)
  ultimately have "(y - 1) div k = y div k" by (simp only: eq)
  then show ?thesis using False by simp
qed

lemma mod_400_100: "(y::int) mod 400 = 0 \<Longrightarrow> y mod 100 = 0"
proof -
  assume "y mod 400 = 0"
  then have "400 dvd y" by (simp add: dvd_eq_mod_eq_0)
  moreover have "(100::int) dvd 400" by simp
  ultimately have "100 dvd y" by (rule dvd_trans [rotated])
  then show ?thesis by (simp add: dvd_eq_mod_eq_0)
qed

lemma mod_100_4: "(y::int) mod 100 = 0 \<Longrightarrow> y mod 4 = 0"
proof -
  assume "y mod 100 = 0"
  then have "100 dvd y" by (simp add: dvd_eq_mod_eq_0)
  moreover have "(4::int) dvd 100" by simp
  ultimately have "4 dvd y" by (rule dvd_trans [rotated])
  then show ?thesis by (simp add: dvd_eq_mod_eq_0)
qed

lemma dby_step_lin:
  fixes A B :: int
  assumes "A = y * 365 + q4 - q100 + q400" "B = (y - 1) * 365 + p4 - p100 + p400"
    "q4 = p4 + i" "q100 = p100 + j" "q400 = p400 + k"
  shows "A = B + (365 + i - j + k)"
  using assms by (simp add: algebra_simps)

lemma leap_count:
  fixes P4 P100 P400 :: bool
  assumes "P400 \<Longrightarrow> P100" "P100 \<Longrightarrow> P4"
  shows "365 + (if P4 then 1 else 0) - (if P100 then 1 else 0) + (if P400 then 1 else 0)
    = (if P4 \<and> (\<not> P100 \<or> P400) then 366 else (365::int))"
  using assms by (cases P4; cases P100; cases P400) simp_all

lemma dby_step: "days_before_year (y + 1) = days_before_year y + (if is_leap y then 366 else 365)"
proof -
  define i :: int where "i = (if y mod 4 = 0 then 1 else 0)"
  define j :: int where "j = (if y mod 100 = 0 then 1 else 0)"
  define k :: int where "k = (if y mod 400 = 0 then 1 else 0)"
  have a: "y div 4 = (y - 1) div 4 + i" unfolding i_def by (rule div_step) simp
  have b: "y div 100 = (y - 1) div 100 + j" unfolding j_def by (rule div_step) simp
  have c: "y div 400 = (y - 1) div 400 + k" unfolding k_def by (rule div_step) simp
  have e1: "days_before_year (y + 1) = y * 365 + y div 4 - y div 100 + y div 400"
    by (simp add: days_before_year_def)
  have e2: "days_before_year y = (y - 1) * 365 + (y - 1) div 4 - (y - 1) div 100 + (y - 1) div 400"
    by (simp add: days_before_year_def Let_def)
  have main: "days_before_year (y + 1) = days_before_year y + (365 + i - j + k)"
    by (rule dby_step_lin [OF e1 e2 a b c])
  have "365 + i - j + k = (if is_leap y then 366 else 365)"
    unfolding i_def j_def k_def is_leap_def
    by (rule leap_count [OF mod_400_100 mod_100_4])
  then show ?thesis by (simp only: main)
qed


lemma dby_decomp:
  assumes "0 \<le> b" "b \<le> 3" "0 \<le> c" "c \<le> 24" "0 \<le> e" "e \<le> 3"
  shows "days_before_year (400 * a + 100 * b + 4 * c + e + 1)
           = 146097 * a + 36524 * b + 1461 * c + 365 * e"
proof -
  let ?y = "400 * a + 100 * b + 4 * c + e"
  have d4: "?y div 4 = 100 * a + 25 * b + c" using assms by linarith
  have d100: "?y div 100 = 4 * a + b" using assms by linarith
  have d400: "?y div 400 = a" using assms by linarith
  show ?thesis unfolding days_before_year_def Let_def using d4 d100 d400 by simp
qed

lemma year_of_bounds:
  assumes "1 \<le> d"
  shows "days_before_year (year_of d) < d \<and> d \<le> days_before_year (year_of d + 1)"
proof -
  define n where "n = d - 1"
  define q400 where "q400 = n div 146097"
  define r400 where "r400 = n mod 146097"
  define q100 where "q100 = r400 div 36524"
  define r100 where "r100 = r400 mod 36524"
  define q4 where "q4 = r100 div 1461"
  define r4 where "r4 = r100 mod 1461"
  define q1 where "q1 = r4 div 365"
  define r1 where "r1 = r4 mod 365"
  have n: "n = 146097 * q400 + r400" "0 \<le> r400" "r400 < 146097"
    unfolding q400_def r400_def by simp_all
  have r400: "r400 = 36524 * q100 + r100" "0 \<le> r100" "r100 < 36524"
    unfolding q100_def r100_def by simp_all
  have r100: "r100 = 1461 * q4 + r4" "0 \<le> r4" "r4 < 1461"
    unfolding q4_def r4_def by simp_all
  have r4: "r4 = 365 * q1 + r1" "0 \<le> r1" "r1 < 365"
    unfolding q1_def r1_def by simp_all
  have n0: "0 \<le> n" using assms by (simp add: n_def)
  have q100b: "0 \<le> q100" "q100 \<le> 4" using n r400 by linarith+
  have q4b: "0 \<le> q4" "q4 \<le> 24" using r400 r100 by linarith+
  have q1b: "0 \<le> q1" "q1 \<le> 4" using r100 r4 by linarith+
  have d: "d = 146097 * q400 + 36524 * q100 + 1461 * q4 + 365 * q1 + r1 + 1"
    using n r400 r100 r4 by (simp add: n_def)
  have yo: "year_of d = (if q1 = 4 \<or> q100 = 4 then 400 * q400 + 100 * q100 + 4 * q4 + q1
                         else 400 * q400 + 100 * q100 + 4 * q4 + q1 + 1)"
    unfolding year_of_def Let_def q1_def r4_def q4_def r100_def q100_def r400_def q400_def n_def
    by simp
  consider (a) "q100 = 4" | (b) "q100 \<le> 3" "q1 = 4" | (c) "q100 \<le> 3" "q1 \<le> 3"
    using q100b q1b by linarith
  then show ?thesis
  proof cases
    case a
    then have z: "r100 = 0" using n r400 by linarith
    have z4a: "q4 = 0" using z r100 by linarith
    have z4b: "r4 = 0" using z z4a r100 by linarith
    note z4 = z4a z4b
    have z1a: "q1 = 0" using z4b r4 by linarith
    have z1b: "r1 = 0" using z4b z1a r4 by linarith
    note z1 = z1a z1b
    have y: "year_of d = 400 * q400 + 100 * 3 + 4 * 24 + 3 + 1" using yo a z4 z1 by simp
    have y1: "year_of d + 1 = 400 * (q400 + 1) + 100 * 0 + 4 * 0 + 0 + 1" using y by simp
    have "days_before_year (year_of d) = 146097 * q400 + 36524 * 3 + 1461 * 24 + 365 * 3"
      unfolding y by (rule dby_decomp) simp_all
    moreover have "days_before_year (year_of d + 1) = 146097 * (q400 + 1) + 36524 * 0 + 1461 * 0 + 365 * 0"
      unfolding y1 by (rule dby_decomp) simp_all
    ultimately show ?thesis using d a z4 z1 by simp
  next
    case b
    have r1z: "r1 = 0" using b r100 r4 by linarith
    have q4s: "q4 \<le> 23" using b r1z r400 r100 r4 by linarith
    have y: "year_of d = 400 * q400 + 100 * q100 + 4 * q4 + 3 + 1" using yo b by simp
    have y1: "year_of d + 1 = 400 * q400 + 100 * q100 + 4 * (q4 + 1) + 0 + 1" using y by simp
    have "days_before_year (year_of d) = 146097 * q400 + 36524 * q100 + 1461 * q4 + 365 * 3"
      unfolding y using q100b b q4b by (intro dby_decomp) simp_all
    moreover have "days_before_year (year_of d + 1) = 146097 * q400 + 36524 * q100 + 1461 * (q4 + 1) + 365 * 0"
      unfolding y1 using q100b b q4b q4s by (intro dby_decomp) simp_all
    ultimately show ?thesis using d b r1z by simp
  next
    case c
    have y: "year_of d = 400 * q400 + 100 * q100 + 4 * q4 + q1 + 1" using yo c by simp
    have e: "days_before_year (year_of d) = 146097 * q400 + 36524 * q100 + 1461 * q4 + 365 * q1"
      unfolding y using q100b c q4b q1b by (intro dby_decomp) simp_all
    have "days_before_year (year_of d) + 365 \<le> days_before_year (year_of d + 1)"
      by (simp add: dby_step)
    then show ?thesis using e d r4 by linarith
  qed
qed



section \<open>Generators\<close>

lemma gen_fst_snd [simp]:
  "fst gen_empty = []" "snd gen_empty = None"
  "fst (gen_raise e) = []" "snd (gen_raise e) = Some e"
  "fst (gen_yield x g) = x # fst g" "snd (gen_yield x g) = snd g"
  "fst (gen_map f g) = map f (fst g)" "snd (gen_map f g) = snd g"
  "fst (gen_filter P g) = filter P (fst g)" "snd (gen_filter P g) = snd g"
  "fst (gen_dropwhile P g) = dropWhile P (fst g)" "snd (gen_dropwhile P g) = snd g"
  "fst (gen_takewhile P g) = takeWhile P (fst g)"
  by (simp_all add: gen_empty_def gen_raise_def gen_yield_def gen_map_def gen_filter_def
      gen_dropwhile_def gen_takewhile_def)

lemma gen_bind_simps [simp]:
  "gen_bind (Inr x) f = f x" "gen_bind (Inl e) f = gen_raise e"
  by (simp_all add: gen_bind_def)

lemma snd_gen_chain_None [simp]:
  "snd (gen_chain g h) = None \<longleftrightarrow> snd g = None \<and> snd h = None"
  by (cases "snd g") (simp_all add: gen_chain_def)

lemma fst_gen_chain_None: "snd g = None \<Longrightarrow> fst (gen_chain g h) = fst g @ fst h"
  by (simp add: gen_chain_def)

lemma set_gen_chain_subset: "set (fst (gen_chain g h)) \<subseteq> set (fst g) \<union> set (fst h)"
  by (cases "snd g") (auto simp: gen_chain_def)

lemma gen_for_list_None:
  "snd (gen_for_list body xs e) = None \<Longrightarrow>
     e = None \<and> list_all (\<lambda>x. snd (body x) = None) xs
       \<and> fst (gen_for_list body xs e) = concat (map (\<lambda>x. fst (body x)) xs)"
  by (induction xs) (auto simp: fst_gen_chain_None)

lemma set_gen_for_list:
  "p \<in> set (fst (gen_for_list body xs e)) \<Longrightarrow> \<exists>x\<in>set xs. p \<in> set (fst (body x))"
proof (induction xs)
  case Nil
  then show ?case by simp
next
  case (Cons x xs)
  then show ?case using set_gen_chain_subset [of "body x" "gen_for_list body xs e"] by auto
qed

section \<open>Dictionaries\<close>

lemma dict_update_Nil [simp]: "dict_update h [] = h"
  by (simp add: dict_update_def)

lemma dict_update_Cons [simp]:
  "dict_update h (p # ps) = dict_update (AList.update (fst p) (snd p) h) ps"
  by (simp add: dict_update_def)

lemma dict_update_append: "dict_update h (ps @ qs) = dict_update (dict_update h ps) qs"
  by (simp add: dict_update_def)

lemma map_of_dict_update:
  "map_of (dict_update h ps) k = (case map_of (rev ps) k of None \<Rightarrow> map_of h k | Some v \<Rightarrow> Some v)"
proof (induction ps arbitrary: h)
  case Nil
  then show ?case by simp
next
  case (Cons p ps)
  show ?case
    by (cases p) (auto simp: Cons.IH update_conv' map_add_def split: option.splits)
qed

lemma dict_contains_update:
  "dict_contains (dict_update h ps) k \<longleftrightarrow> dict_contains h k \<or> k \<in> fst ` set ps"
proof -
  have "map_of (rev ps) k = None \<longleftrightarrow> k \<notin> fst ` set ps"
    by (simp add: map_of_eq_None_iff)
  then show ?thesis
    by (auto simp: dict_contains_def map_of_dict_update split: option.splits)
qed

section \<open>All dates of the range\<close>

lemma iter_all_dates_loop_None:
  "snd (iter_all_dates_loop a b) = None \<Longrightarrow> fst (iter_all_dates_loop a b) = [a..b]"
proof (induction a b rule: iter_all_dates_loop.induct)
  case (1 date hi)
  show ?case
  proof (cases "date \<le> hi")
    case True
    with "1.prems" obtain d where d: "date_add date 1 = Inr d"
      by (subst (asm) iter_all_dates_loop.simps) (cases "date_add date 1"; simp)
    then have d1: "d = date + 1" by (auto simp: date_add_def Let_def split: if_splits)
    from "1.prems" True d have "snd (iter_all_dates_loop d hi) = None"
      by (subst (asm) iter_all_dates_loop.simps) simp
    with "1.IH" [OF True d] have "fst (iter_all_dates_loop d hi) = [d..hi]" by simp
    with True d d1 show ?thesis
      by (subst iter_all_dates_loop.simps) (simp add: upto_rec1 [of date hi])
  next
    case False
    then show ?thesis by (subst iter_all_dates_loop.simps) simp
  qed
qed



section \<open>Unfolding the loops one step\<close>

lemma gen_chain_empty [simp]: "gen_chain gen_empty g = g" "gen_chain ([], None) g = g"
  by (simp_all add: gen_chain_def gen_empty_def)

lemma gen_chain_yield [simp]: "gen_chain (gen_yield x g) h = gen_yield x (gen_chain g h)"
  by (cases "snd g") (simp_all add: gen_chain_def gen_yield_def)

lemma gen_chain_raise [simp]: "gen_chain (gen_raise e) g = gen_raise e"
  by (simp add: gen_chain_def gen_raise_def)

lemma shubunnohi_back_stop: "datetime_date dt < lo \<Longrightarrow> shubunnohi_back lo dt = gen_empty"
  by (subst shubunnohi_back.simps) simp

lemma shubunnohi_back_step:
  "lo \<le> datetime_date dt \<Longrightarrow> shubunnohi_back lo dt =
     gen_yield (datetime_date dt, Shubunnohi)
       (gen_bind (datetime_add dt (- tropical_year)) (\<lambda>dt. shubunnohi_back lo dt))"
  by (subst shubunnohi_back.simps) simp

lemma shubunnohi_forward_stop:
  "max_date self \<le> datetime_date dt \<Longrightarrow> shubunnohi_forward self dt = gen_empty"
  by (subst shubunnohi_forward.simps) simp

lemma shubunnohi_forward_step:
  "datetime_date dt < max_date self \<Longrightarrow> shubunnohi_forward self dt =
     gen_yield (datetime_date dt, Shubunnohi)
       (gen_bind (datetime_add dt tropical_year) (\<lambda>dt. shubunnohi_forward self dt))"
  by (subst shubunnohi_forward.simps) simp

lemma shunbunnohi_back_stop:
  "datetime_date dt < lo \<Longrightarrow> shunbunnohi_back self lo dt = gen_empty"
  by (subst shunbunnohi_back.simps) simp

lemma shunbunnohi_back_step:
  "lo \<le> datetime_date dt \<Longrightarrow> shunbunnohi_back self lo dt =
     gen_chain
       (if datetime_date dt < max_date self
        then gen_yield (datetime_date dt, Shunbunnohi) gen_empty else gen_empty)
       (gen_bind (datetime_add dt (- tropical_year)) (\<lambda>dt. shunbunnohi_back self lo dt))"
  by (subst shunbunnohi_back.simps) simp

lemma shunbunnohi_forward_stop:
  "max_date self \<le> datetime_date dt \<Longrightarrow> shunbunnohi_forward self lo dt = gen_empty"
  by (subst shunbunnohi_forward.simps) simp

lemma shunbunnohi_forward_step:
  "datetime_date dt < max_date self \<Longrightarrow> shunbunnohi_forward self lo dt =
     gen_chain
       (if datetime_date dt \<ge> lo
        then gen_yield (datetime_date dt, Shunbunnohi) gen_empty else gen_empty)
       (gen_bind (datetime_add dt tropical_year) (\<lambda>dt. shunbunnohi_forward self lo dt))"
  by (subst shunbunnohi_forward.simps) simp

lemmas equinox_unfold =
  shubunnohi_back_stop shubunnohi_back_step shubunnohi_forward_stop shubunnohi_forward_step
  shunbunnohi_back_stop shunbunnohi_back_step shunbunnohi_forward_stop shunbunnohi_forward_step

lemmas calendar_eval =
  datetime_of_def ymd2ord_def days_before_year_def days_before_month_def is_leap_def
  US_PER_DAY_def minutes_def tropical_year_def datetime_date_def datetime_add_def
  MAXORDINAL_def Let_def

section \<open>The derived pass\<close>

lemma date_add_Inr: "date_add d n = Inr r \<Longrightarrow> r = d + n \<and> 0 < r \<and> r \<le> MAXORDINAL"
  by (auto simp: date_add_def Let_def split: if_splits)

lemma skip_holidays_Inr:
  "skip_holidays h one = Inr r \<Longrightarrow>
     one \<le> r \<and> \<not> dict_contains h r \<and> list_all (dict_contains h) [one..r - 1]"
proof (induction h one rule: skip_holidays.induct)
  case (1 holidays one)
  show ?case
  proof (cases "dict_contains holidays one")
    case True
    with "1.prems" obtain d where d: "date_add one 1 = Inr d" and r: "skip_holidays holidays d = Inr r"
      by (subst (asm) skip_holidays.simps) (auto split: sum.splits)
    from d have d1: "d = one + 1" by (auto dest: date_add_Inr)
    from "1.IH" [OF True d r] d1 True show ?thesis
      by (auto simp: upto_rec1 [of one "r - 1"])
  next
    case False
    with "1.prems" have "r = one" by (subst (asm) skip_holidays.simps) simp
    with False show ?thesis by simp
  qed
qed

lemma skip_holidays_first:
  assumes "one \<le> f" "\<not> dict_contains h f" "list_all (dict_contains h) [one..f - 1]"
    and "skip_holidays h one = Inr r"
  shows "r = f"
proof -
  from skip_holidays_Inr [OF assms(4)]
  have r: "one \<le> r" "\<not> dict_contains h r" "list_all (dict_contains h) [one..r - 1]" by auto
  have "\<not> r < f" using assms(3) r(1,2) by (auto simp: list_all_iff)
  moreover have "\<not> f < r" using r(3) assms(1,2) by (auto simp: list_all_iff)
  ultimately show ?thesis by simp
qed

lemma sandwich_keys:
  "(k, v) \<in> set (fst (sandwich self h d)) \<Longrightarrow>
     k = d + 1 \<and> v = Kokuminno \<and> k \<le> max_date self \<and> \<not> dict_contains h k"
  by (auto simp: sandwich_def gen_bind_def split: sum.splits if_splits dest: date_add_Inr)

lemma furikae_next_day_Some:
  "furikae_next_day self h d = Inr (Some k) \<Longrightarrow>
     k = d + 1 \<and> k \<le> max_date self \<and> \<not> dict_contains h k"
  by (auto simp: furikae_next_day_def split: sum.splits if_splits dest: date_add_Inr)

lemma furikae_next_free_Some:
  "furikae_next_free self h d = Inr (Some k) \<Longrightarrow>
     d < k \<and> k \<le> max_date self \<and> \<not> dict_contains h k"
  by (auto simp: furikae_next_free_def split: sum.splits if_splits
      dest!: date_add_Inr skip_holidays_Inr)

lemma body_keys:
  assumes "(k, v) \<in> set (fst (kokuminnokyujitsu_body self h d))"
  shows "d < k \<and> k \<le> max_date self \<and> \<not> dict_contains h k \<and> (v = Furikae \<or> v = Kokuminno)"
  using assms
  by (auto simp: kokuminnokyujitsu_body_def gen_bind_def
      split: if_splits sum.splits option.splits
      dest!: sandwich_keys furikae_next_day_Some furikae_next_free_Some)

lemma update_loop_gen_for:
  "update_loop self s ds e =
     (case snd (gen_for_list (kokuminnokyujitsu_body self (snapshot s)) ds e) of
        Some err \<Rightarrow> Inl err
      | None \<Rightarrow> Inr (s\<lparr>live := dict_update (live s)
                   (fst (gen_for_list (kokuminnokyujitsu_body self (snapshot s)) ds e))\<rparr>))"
proof (induction ds arbitrary: s)
  case Nil
  then show ?case by (cases e) simp_all
next
  case (Cons d ds)
  obtain ps r where b: "kokuminnokyujitsu_body self (snapshot s) d = (ps, r)"
    by (cases "kokuminnokyujitsu_body self (snapshot s) d")
  show ?case
  proof (cases r)
    case None
    with b show ?thesis
      by (simp add: Cons.IH gen_chain_def dict_update_append split: option.splits)
  next
    case (Some err)
    with b show ?thesis by (simp add: gen_chain_def)
  qed
qed

lemma u_holidays_eq:
  "u_holidays self =
     (case dict_of (base_chain self) of
        Inl e \<Rightarrow> Inl e
      | Inr base \<Rightarrow>
          (case snd (kokuminnokyujitsu self base) of
             Some e \<Rightarrow> Inl e
           | None \<Rightarrow> Inr (dict_update base (fst (kokuminnokyujitsu self base)))))"
  by (simp add: u_holidays_def update_loop_gen_for kokuminnokyujitsu_def gen_for_def
      split: sum.splits option.splits)

lemma u_holidays_Inr:
  assumes "u_holidays self = Inr final"
  obtains base where "dict_of (base_chain self) = Inr base"
    "snd (kokuminnokyujitsu self base) = None"
    "final = dict_update base (fst (kokuminnokyujitsu self base))"
  using assms by (auto simp: u_holidays_eq split: sum.splits option.splits)

lemma pass_None:
  assumes "snd (kokuminnokyujitsu self h) = None"
  shows "fst (kokuminnokyujitsu self h)
           = concat (map (\<lambda>d. fst (kokuminnokyujitsu_body self h d)) [min_date self..max_date self])"
    and "list_all (\<lambda>d. snd (kokuminnokyujitsu_body self h d) = None) [min_date self..max_date self]"
proof -
  from assms have g: "snd (gen_for_list (kokuminnokyujitsu_body self h) (fst (iter_all_dates self))
      (snd (iter_all_dates self))) = None"
    by (simp add: kokuminnokyujitsu_def gen_for_def)
  from gen_for_list_None [OF g] have e: "snd (iter_all_dates self) = None"
    and a: "list_all (\<lambda>d. snd (kokuminnokyujitsu_body self h d) = None) (fst (iter_all_dates self))"
    and c: "fst (gen_for_list (kokuminnokyujitsu_body self h) (fst (iter_all_dates self))
      (snd (iter_all_dates self))) = concat (map (\<lambda>d. fst (kokuminnokyujitsu_body self h d)) (fst (iter_all_dates self)))"
    by auto
  from e have l: "fst (iter_all_dates self) = [min_date self..max_date self]"
    by (simp add: iter_all_dates_def iter_all_dates_loop_None)
  show "fst (kokuminnokyujitsu self h)
           = concat (map (\<lambda>d. fst (kokuminnokyujitsu_body self h d)) [min_date self..max_date self])"
    using c l by (simp add: kokuminnokyujitsu_def gen_for_def)
  show "list_all (\<lambda>d. snd (kokuminnokyujitsu_body self h d) = None) [min_date self..max_date self]"
    using a l by simp
qed

lemma iter_all_dates_loop_set:
  "d \<in> set (fst (iter_all_dates_loop a b)) \<Longrightarrow> a \<le> d \<and> d \<le> b"
proof (induction a b rule: iter_all_dates_loop.induct)
  case (1 date hi)
  show ?case
  proof (cases "date \<le> hi")
    case True
    show ?thesis
    proof (cases "date_add date 1")
      case (Inl e)
      with "1.prems" True show ?thesis
        by (subst (asm) iter_all_dates_loop.simps) simp
    next
      case (Inr x)
      then have x: "x = date + 1" by (auto dest: date_add_Inr)
      from "1.prems" True Inr have "d = date \<or> d \<in> set (fst (iter_all_dates_loop x hi))"
        by (subst (asm) iter_all_dates_loop.simps) simp
      with "1.IH" [OF True Inr] x True show ?thesis by auto
    qed
  next
    case False
    with "1.prems" show ?thesis by (subst (asm) iter_all_dates_loop.simps) simp
  qed
qed

lemma pass_keys:
  assumes "(k, v) \<in> set (fst (kokuminnokyujitsu self h))"
  shows "min_date self < k \<and> k \<le> max_date self \<and> \<not> dict_contains h k
           \<and> (v = Furikae \<or> v = Kokuminno)"
proof -
  from assms obtain d where d: "d \<in> set (fst (iter_all_dates self))"
    and kv: "(k, v) \<in> set (fst (kokuminnokyujitsu_body self h d))"
    by (auto simp: kokuminnokyujitsu_def gen_for_def dest: set_gen_for_list)
  have "min_date self \<le> d" using d by (auto simp: iter_all_dates_def dest: iter_all_dates_loop_set)
  with body_keys [OF kv] show ?thesis by auto
qed

section \<open>Dates of a fixed month and day\<close>

lemma mkdate_Inr:
  "mkdate y m d = Inr x \<Longrightarrow>
     x = ymd2ord y m d \<and> 1 \<le> y \<and> y \<le> 9999 \<and> 1 \<le> m \<and> m \<le> 12 \<and> 1 \<le> d
       \<and> d \<le> days_in_month y m"
  by (auto simp: mkdate_def split: if_splits)

lemma month_cases:
  assumes "1 \<le> m" "m \<le> 12"
  obtains "m = 1" | "m = 2" | "m = 3" | "m = 4" | "m = 5" | "m = 6" | "m = 7" | "m = 8"
    | "m = 9" | "m = 10" | "m = 11" | "m = (12::int)"
proof -
  have "m = 1 \<or> m = 2 \<or> m = 3 \<or> m = 4 \<or> m = 5 \<or> m = 6 \<or> m = 7 \<or> m = 8
      \<or> m = 9 \<or> m = 10 \<or> m = 11 \<or> m = 12"
    using assms by arith
  then show ?thesis using that by blast
qed

lemma days_in_month_bounds:
  assumes "1 \<le> m" "m \<le> 12"
  shows "28 \<le> days_in_month y m \<and> days_in_month y m \<le> 31"
  using assms by (rule month_cases) (simp_all add: days_in_month_def)

lemma month_fits_year:
  assumes "1 \<le> m" "m \<le> 12"
  shows "0 \<le> days_before_month y m
    \<and> days_before_month y m + days_in_month y m \<le> (if is_leap y then 366 else 365)"
  using assms by (rule month_cases) (simp_all add: days_before_month_def days_in_month_def)

lemma ymd2ord_in_year:
  assumes "1 \<le> m" "m \<le> 12" "1 \<le> d" "d \<le> days_in_month y m"
  shows "days_before_year y < ymd2ord y m d \<and> ymd2ord y m d \<le> days_before_year (y + 1)"
  using month_fits_year [OF assms(1,2), of y] assms(3,4)
  by (simp only: ymd2ord_def dby_step) linarith

lemma dby_mono: "y \<le> y' \<Longrightarrow> days_before_year y \<le> days_before_year y'"
proof (induction y' rule: int_ge_induct)
  case base
  show ?case by simp
next
  case (step i)
  have "days_before_year i \<le> days_before_year (i + 1)" by (simp add: dby_step)
  with step show ?case by linarith
qed

lemma dby_1: "days_before_year 1 = 0"
  by (simp add: days_before_year_def)

lemma year_of_unique:
  assumes "1 \<le> x" "days_before_year y < x" "x \<le> days_before_year (y + 1)"
  shows "year_of x = y"
proof -
  from year_of_bounds [OF assms(1)]
  have b: "days_before_year (year_of x) < x" "x \<le> days_before_year (year_of x + 1)" by auto
  have "\<not> year_of x < y"
  proof
    assume "year_of x < y"
    then have "days_before_year (year_of x + 1) \<le> days_before_year y" by (intro dby_mono) simp
    with b assms show False by linarith
  qed
  moreover have "\<not> y < year_of x"
  proof
    assume "y < year_of x"
    then have "days_before_year (y + 1) \<le> days_before_year (year_of x)" by (intro dby_mono) simp
    with b assms show False by linarith
  qed
  ultimately show ?thesis by simp
qed

lemma year_of_ymd2ord:
  assumes "1 \<le> y" "1 \<le> m" "m \<le> 12" "1 \<le> d" "d \<le> days_in_month y m"
  shows "year_of (ymd2ord y m d) = y"
proof -
  have "0 \<le> days_before_year y" using dby_mono [OF assms(1)] by (simp add: dby_1)
  with ymd2ord_in_year [OF assms(2-5)] show ?thesis by (intro year_of_unique) auto
qed

lemma ymd2ord_next_year:
  assumes "1 \<le> m" "m \<le> 12"
  shows "ymd2ord y m d + 365 \<le> ymd2ord (y + 1) m d \<and> ymd2ord (y + 1) m d \<le> ymd2ord y m d + 366"
  using assms by (rule month_cases) (simp_all add: ymd2ord_def dby_step days_before_month_def)

lemma ymd2ord_gap:
  assumes "1 \<le> m" "m \<le> 12" "y < y'"
  shows "ymd2ord y m d + 365 \<le> ymd2ord y' m d"
proof -
  have "y + 1 \<le> y'" using assms(3) by simp
  then show ?thesis
  proof (induction y' rule: int_ge_induct)
    case base
    show ?case using ymd2ord_next_year [OF assms(1,2)] by simp
  next
    case (step i)
    with ymd2ord_next_year [OF assms(1,2), of i d] show ?case by linarith
  qed
qed

text \<open>A month and day that exist in every year, and a value of the date type.\<close>

definition every_year :: "int \<Rightarrow> int \<Rightarrow> bool" where
  "every_year m d = (1 \<le> m \<and> m \<le> 12 \<and> 1 \<le> d \<and> d \<le> days_in_month 1 m)"

definition is_date :: "date \<Rightarrow> bool" where
  "is_date d = (1 \<le> d \<and> d \<le> MAXORDINAL)"

lemma every_year_valid:
  assumes "every_year m d"
  shows "1 \<le> m \<and> m \<le> 12 \<and> 1 \<le> d \<and> d \<le> days_in_month y m"
proof -
  from assms have m: "1 \<le> m" "m \<le> 12" and d: "1 \<le> d" "d \<le> days_in_month 1 m"
    by (auto simp: every_year_def)
  have "days_in_month 1 m \<le> days_in_month y m"
    using m by (rule month_cases) (simp_all add: days_in_month_def is_leap_def)
  with m d show ?thesis by simp
qed

lemma mkdate_every_year:
  "every_year m d \<Longrightarrow> 1 \<le> y \<Longrightarrow> y \<le> 9999 \<Longrightarrow> mkdate y m d = Inr (ymd2ord y m d)"
  using every_year_valid [of m d y] by (simp add: mkdate_def)

lemma u_iter_dates_loop_eq:
  "every_year m d \<Longrightarrow> 1 \<le> y \<Longrightarrow>
     u_iter_dates_loop y m d = (map (\<lambda>y. ymd2ord y m d) [y..9999], Some ValueError)"
proof (induction y m d rule: u_iter_dates_loop.induct)
  case (1 year month day)
  show ?case
  proof (cases "year \<le> 9999")
    case True
    have mk: "mkdate year month day = Inr (ymd2ord year month day)"
      using "1.prems" True by (simp add: mkdate_every_year)
    have "u_iter_dates_loop (year + 1) month day
        = (map (\<lambda>y. ymd2ord y month day) [year + 1..9999], Some ValueError)"
      using "1.IH" [OF mk] "1.prems" by simp
    with mk True show ?thesis
      by (subst u_iter_dates_loop.simps) (simp add: gen_yield_def upto_rec1 [of year 9999])
  next
    case False
    then have "mkdate year month day = Inl ValueError" by (simp add: mkdate_def)
    with False show ?thesis
      by (subst u_iter_dates_loop.simps) (simp add: gen_raise_def)
  qed
qed

lemma year_of_DATE_00: "year_of DATE_00 = 1948"
  by (simp add: year_of_def DATE_00_def ymd2ord_def days_before_year_def days_before_month_def
      is_leap_def)

text \<open>The years of the yearly sequences, from the year of the law to the last year.\<close>

definition all_years :: "int list" where
  "all_years = [1948..9999]"

lemma set_all_years: "set all_years = {1948..9999}"
  unfolding all_years_def by (rule set_upto)

lemma u_iter_dates_eq:
  assumes "every_year m d"
  shows "u_iter_dates m d = (map (\<lambda>y. ymd2ord y m d) all_years, Some ValueError)"
proof -
  have "u_iter_dates_loop 1948 m d = (map (\<lambda>y. ymd2ord y m d) [1948..9999], Some ValueError)"
    using assms by (rule u_iter_dates_loop_eq) simp
  then show ?thesis unfolding u_iter_dates_def year_of_DATE_00 all_years_def .
qed

lemma ymd2ord_strict_mono:
  "1 \<le> m \<Longrightarrow> m \<le> 12 \<Longrightarrow> y < y' \<Longrightarrow> ymd2ord y m d < ymd2ord y' m d"
  using ymd2ord_gap [of m y y' d] by simp

lemma sorted_map_upto:
  assumes "\<And>y y'. y < y' \<Longrightarrow> f y < (f y' :: int)"
  shows "sorted (map f [a..b])"
proof -
  have "sorted_wrt (<) [a..b]" by (simp add: sorted_wrt_upto flip: strict_sorted_iff) 
  then have "sorted_wrt (\<lambda>y y'. f y \<le> f y') [a..b]"
    by (rule sorted_wrt_mono_rel [rotated]) (auto dest: assms less_imp_le)
  then show ?thesis by (simp add: sorted_wrt_map)
qed

section \<open>Clipping a sorted sequence\<close>

lemma dropWhile_sorted:
  "sorted xs \<Longrightarrow> dropWhile (\<lambda>x. lo > x) xs = filter (\<lambda>x. lo \<le> x) (xs :: int list)"
proof (induction xs)
  case Nil
  show ?case by simp
next
  case (Cons x xs)
  show ?case
  proof (cases "lo > x")
    case True
    with Cons show ?thesis by simp
  next
    case False
    with Cons.prems have "\<forall>y\<in>set xs. lo \<le> y" by auto
    then have "filter (\<lambda>x. lo \<le> x) xs = xs" by (simp add: filter_id_conv)
    with False show ?thesis by simp
  qed
qed

lemma takeWhile_sorted:
  "sorted xs \<Longrightarrow> takeWhile (\<lambda>x. hi \<ge> x) xs = filter (\<lambda>x. x \<le> hi) (xs :: int list)"
proof (induction xs)
  case Nil
  show ?case by simp
next
  case (Cons x xs)
  show ?case
  proof (cases "hi \<ge> x")
    case True
    with Cons show ?thesis by simp
  next
    case False
    with Cons.prems have "\<forall>y\<in>set xs. \<not> y \<le> hi" by auto
    then have "filter (\<lambda>x. x \<le> hi) xs = []" by (simp add: filter_empty_conv)
    with False show ?thesis by simp
  qed
qed

lemma sdf_fst_SS:
  "sorted (fst g) \<Longrightarrow>
     fst (u_sorted_dates_filter g (Some a) (Some b)) = filter (\<lambda>x. a \<le> x \<and> x \<le> b) (fst g)"
  by (simp add: u_sorted_dates_filter_def dropWhile_sorted takeWhile_sorted sorted_wrt_filter
      conj_commute)

lemma sdf_fst_SN:
  "sorted (fst g) \<Longrightarrow> fst (u_sorted_dates_filter g (Some a) None) = filter (\<lambda>x. a \<le> x) (fst g)"
  by (simp add: u_sorted_dates_filter_def dropWhile_sorted)

lemma sdf_snd_SN: "snd (u_sorted_dates_filter g (Some a) None) = snd g"
  by (simp add: u_sorted_dates_filter_def)

lemma sdf_snd_SS:
  "sorted (fst g) \<Longrightarrow>
     snd (u_sorted_dates_filter g (Some a) (Some b))
       = (if \<exists>x\<in>set (fst g). a \<le> x \<and> b < x then None else snd g)"
  by (auto simp: u_sorted_dates_filter_def gen_takewhile_def dropWhile_sorted list_all_iff)

lemma sdf_sorted_SS: "sorted (fst g) \<Longrightarrow> sorted (fst (u_sorted_dates_filter g (Some a) (Some b)))"
  by (simp add: sdf_fst_SS sorted_wrt_filter)

section \<open>Yearly sequences\<close>

text \<open>
  The date that \<^verbatim>\<open>_iter_nth_monday\<close> computes for a year, and the property of a yearly
  sequence that its date for a year lies in that year.
\<close>

definition nth_monday :: "int \<Rightarrow> int \<Rightarrow> int \<Rightarrow> date" where
  "nth_monday y m n =
     ymd2ord y m 1 + (7 * (n - 1) + 1 * ((7 - weekday (ymd2ord y m 1)) mod 7))"

definition yearly :: "(int \<Rightarrow> date) \<Rightarrow> bool" where
  "yearly f = (\<forall>y. 1 \<le> y \<longrightarrow> days_before_year y < f y \<and> f y \<le> days_before_year (y + 1))"

definition window :: "(int \<Rightarrow> date) \<Rightarrow> date \<Rightarrow> date \<Rightarrow> date list" where
  "window f lo hi = filter (\<lambda>x. lo \<le> x \<and> x \<le> hi) (map f all_years)"

lemma yearly_fixed: "every_year m d \<Longrightarrow> yearly (\<lambda>y. ymd2ord y m d)"
  unfolding yearly_def using every_year_valid [of m d] ymd2ord_in_year [of m d] by blast

lemma weekday_shift_bounds: "0 \<le> (7 - weekday x) mod 7 \<and> (7 - weekday x) mod 7 \<le> 6"
proof -
  have "0 \<le> (7 - weekday x) mod 7" by simp
  moreover have "(7 - weekday x) mod 7 < 7" by simp
  ultimately show ?thesis by linarith
qed

lemma nth_monday_as_day:
  "nth_monday y m n = ymd2ord y m (1 + 7 * (n - 1) + (7 - weekday (ymd2ord y m 1)) mod 7)"
  by (simp add: nth_monday_def ymd2ord_def)

lemma yearly_nth_monday:
  assumes "1 \<le> m" "m \<le> 12" "1 \<le> n" "n \<le> 4"
  shows "yearly (\<lambda>y. nth_monday y m n)"
  unfolding yearly_def
proof (intro allI impI)
  fix y :: int
  assume "1 \<le> y"
  define r where "r = (7 - weekday (ymd2ord y m 1)) mod 7"
  have r: "0 \<le> r" "r \<le> 6" using weekday_shift_bounds [of "ymd2ord y m 1"] by (simp_all add: r_def)
  have "1 + 7 * (n - 1) + r \<le> 28" using assms(3,4) r by simp
  moreover have "28 \<le> days_in_month y m" using days_in_month_bounds [OF assms(1,2)] by simp
  ultimately have d: "1 \<le> 1 + 7 * (n - 1) + r" "1 + 7 * (n - 1) + r \<le> days_in_month y m"
    using assms(3,4) r by simp_all
  show "days_before_year y < nth_monday y m n \<and> nth_monday y m n \<le> days_before_year (y + 1)"
    unfolding nth_monday_as_day r_def [symmetric]
    by (rule ymd2ord_in_year [OF assms(1,2) d])
qed

lemma yearly_strict_mono:
  assumes "yearly f" "1 \<le> y" "y < y'"
  shows "f y < f y'"
proof -
  have "f y \<le> days_before_year (y + 1)" using assms(1,2) by (simp add: yearly_def)
  also have "\<dots> \<le> days_before_year y'" using assms(3) by (intro dby_mono) simp
  also have "\<dots> < f y'" using assms by (simp add: yearly_def)
  finally show ?thesis .
qed

lemma yearly_positive: "yearly f \<Longrightarrow> 1 \<le> y \<Longrightarrow> 1 \<le> f y"
proof -
  assume a: "yearly f" "1 \<le> y"
  have "0 \<le> days_before_year y" using dby_mono [of 1 y] a by (simp add: dby_1)
  moreover have "days_before_year y < f y" using a by (simp add: yearly_def)
  ultimately show ?thesis by linarith
qed

lemma yearly_year_of:
  assumes "yearly f" "1 \<le> y"
  shows "year_of (f y) = y"
proof (rule year_of_unique)
  show "1 \<le> f y" using assms by (rule yearly_positive)
  show "days_before_year y < f y" "f y \<le> days_before_year (y + 1)"
    using assms by (simp_all add: yearly_def)
qed

lemma sorted_yearly: "yearly f \<Longrightarrow> sorted (map f all_years)"
proof -
  assume y: "yearly f"
  have "sorted_wrt (<) all_years"
    unfolding all_years_def by (rule sorted_wrt_upto)
  then have "sorted_wrt (\<lambda>a b. f a \<le> f b) all_years"
  proof (rule sorted_wrt_mono_rel [rotated])
    fix a b assume "a \<in> set all_years" "b \<in> set all_years" "a < b"
    then show "f a \<le> f b" using yearly_strict_mono [OF y, of a b] by (simp add: set_all_years)
  qed
  then show ?thesis by (simp add: sorted_wrt_map)
qed

lemma distinct_yearly: "yearly f \<Longrightarrow> distinct (map f all_years)"
proof -
  assume y: "yearly f"
  have "inj_on f (set all_years)"
  proof (rule inj_onI)
    fix a b assume "a \<in> set all_years" "b \<in> set all_years" "f a = f b"
    then show "a = b"
      using yearly_strict_mono [OF y, of a b] yearly_strict_mono [OF y, of b a]
      by (cases a b rule: linorder_cases) (simp_all add: set_all_years)
  qed
  moreover have "distinct all_years" unfolding all_years_def by (rule distinct_upto)
  ultimately show ?thesis by (simp add: distinct_map)
qed

lemma window_mem:
  assumes "yearly f"
  shows "x \<in> set (window f lo hi) \<longleftrightarrow>
    lo \<le> x \<and> x \<le> hi \<and> 1948 \<le> year_of x \<and> year_of x \<le> 9999 \<and> f (year_of x) = x"
proof
  assume "x \<in> set (window f lo hi)"
  then obtain y where y: "1948 \<le> y" "y \<le> 9999" "x = f y" and b: "lo \<le> x" "x \<le> hi"
    by (auto simp: window_def set_all_years)
  from y have "year_of x = y" using yearly_year_of [OF assms, of y] by simp
  with y b show "lo \<le> x \<and> x \<le> hi \<and> 1948 \<le> year_of x \<and> year_of x \<le> 9999 \<and> f (year_of x) = x"
    by simp
next
  assume a: "lo \<le> x \<and> x \<le> hi \<and> 1948 \<le> year_of x \<and> year_of x \<le> 9999 \<and> f (year_of x) = x"
  then have "x \<in> f ` {1948..9999}" by (metis atLeastAtMost_iff imageI)
  with a show "x \<in> set (window f lo hi)" by (simp add: window_def set_all_years)
qed

lemma window_sorted: "yearly f \<Longrightarrow> sorted (window f lo hi)"
  unfolding window_def by (intro sorted_wrt_filter sorted_yearly)

lemma window_distinct: "yearly f \<Longrightarrow> distinct (window f lo hi)"
  unfolding window_def by (intro distinct_filter distinct_yearly)

lemma window_window:
  "filter (\<lambda>x. a \<le> x \<and> x \<le> b) (window f lo hi) = window f (max lo a) (min hi b)"
  unfolding window_def by (auto intro: filter_cong)

lemma window_lower:
  "filter (\<lambda>x. a \<le> x) (window f lo hi) = window f (max lo a) hi"
  unfolding window_def by (auto intro: filter_cong)

section \<open>The yearly generators\<close>

abbreviation fixed :: "int \<Rightarrow> int \<Rightarrow> int \<Rightarrow> date" where
  "fixed m d \<equiv> (\<lambda>y. ymd2ord y m d)"

abbreviation monday :: "int \<Rightarrow> int \<Rightarrow> int \<Rightarrow> date" where
  "monday m n \<equiv> (\<lambda>y. nth_monday y m n)"

text \<open>A range for which no yearly sequence is read to its end.\<close>

definition ok_range :: "jholiday \<Rightarrow> bool" where
  "ok_range self = (min_date self \<le> ymd2ord 9999 1 1 \<and> max_date self < ymd2ord 9999 1 1)"

lemma dby_10000: "days_before_year 10000 = MAXORDINAL"
  by (simp add: days_before_year_def MAXORDINAL_def)

lemma ymd2ord_9999: "ymd2ord 9999 1 1 = days_before_year 9999 + 1"
  by (simp add: ymd2ord_def days_before_month_def)

lemma yearly_last:
  assumes "yearly f"
  shows "ymd2ord 9999 1 1 \<le> f 9999"
proof -
  have "days_before_year 9999 < f 9999" using assms unfolding yearly_def by simp
  then show ?thesis by (simp add: ymd2ord_9999)
qed

lemma yearly_le_max:
  assumes "yearly f" "1 \<le> y" "y \<le> 9999"
  shows "f y \<le> MAXORDINAL"
proof -
  have "f y \<le> days_before_year (y + 1)" using assms by (simp add: yearly_def)
  also have "\<dots> \<le> days_before_year 10000" using assms by (intro dby_mono) simp
  finally show ?thesis by (simp add: dby_10000)
qed

lemma gen_for_list_date_add:
  assumes "list_all (\<lambda>x. 0 < x + c x \<and> x + c x \<le> MAXORDINAL) xs"
  shows "gen_for_list (\<lambda>x. gen_bind (date_add x (c x)) (\<lambda>d. gen_yield d gen_empty)) xs e
           = (map (\<lambda>x. x + c x) xs, e)"
  using assms
proof (induction xs)
  case Nil
  show ?case by simp
next
  case (Cons x xs)
  then have "date_add x (c x) = Inr (x + c x)" by (simp add: date_add_def)
  with Cons show ?case by (simp add: gen_yield_def gen_chain_def gen_empty_def)
qed

lemma u_iter_nth_monday_eq:
  assumes "1 \<le> m" "m \<le> 12" "1 \<le> n" "n \<le> 4"
  shows "u_iter_nth_monday m n = (map (monday m n) all_years, Some ValueError)"
proof -
  have ev: "every_year m 1" using assms(1,2) days_in_month_bounds [of m 1]
    by (simp add: every_year_def)
  have y: "yearly (monday m n)" using assms by (rule yearly_nth_monday)
  let ?c = "\<lambda>x. 7 * (n - 1) + 1 * ((7 - weekday x) mod 7)"
  have "list_all (\<lambda>x. 0 < x + ?c x \<and> x + ?c x \<le> MAXORDINAL) (map (fixed m 1) all_years)"
  proof -
    have "0 < nth_monday k m n \<and> nth_monday k m n \<le> MAXORDINAL" if "k \<in> set all_years" for k
      using that yearly_positive [OF y, of k] yearly_le_max [OF y, of k]
      by (simp add: set_all_years)
    then show ?thesis by (simp add: list_all_iff nth_monday_def)
  qed
  from gen_for_list_date_add [OF this, of "Some ValueError"]
  show ?thesis
    by (simp add: u_iter_nth_monday_def u_iter_dates_eq [OF ev] gen_for_def nth_monday_def
        comp_def)
qed

lemma sdf_snd_None: "snd g = None \<Longrightarrow> snd (u_sorted_dates_filter g lo hi) = None"
  by (cases lo; cases hi) (simp_all add: u_sorted_dates_filter_def gen_takewhile_def)

lemma clip_fst:
  assumes "yearly f"
  shows "fst (u_sorted_dates_filter (map f all_years, e) (Some lo) (Some hi)) = window f lo hi"
  using sorted_yearly [OF assms] by (simp add: sdf_fst_SS window_def)

lemma clip_snd:
  assumes "yearly f" "lo \<le> ymd2ord 9999 1 1" "hi < ymd2ord 9999 1 1"
  shows "snd (u_sorted_dates_filter (map f all_years, e) (Some lo) (Some hi)) = None"
proof -
  have "f 9999 \<in> set (map f all_years)" by (simp add: set_all_years)
  moreover have "lo \<le> f 9999" "hi < f 9999" using yearly_last [OF assms(1)] assms(2,3) by simp_all
  ultimately have "\<exists>x\<in>set (map f all_years). lo \<le> x \<and> hi < x" by blast
  then show ?thesis using sorted_yearly [OF assms(1)] by (simp add: sdf_snd_SS)
qed

lemma clip_clip_SS:
  assumes "yearly f"
  shows "fst (u_sorted_dates_filter
            (u_sorted_dates_filter (map f all_years, e) (Some lo) (Some hi)) (Some a) (Some b))
          = window f (max lo a) (min hi b)"
proof -
  let ?g = "u_sorted_dates_filter (map f all_years, e) (Some lo) (Some hi)"
  have "sorted (fst ?g)" using assms by (simp add: clip_fst window_sorted)
  then show ?thesis by (simp add: sdf_fst_SS clip_fst [OF assms] window_window)
qed

lemma clip_clip_SN:
  assumes "yearly f"
  shows "fst (u_sorted_dates_filter
            (u_sorted_dates_filter (map f all_years, e) (Some lo) (Some hi)) (Some a) None)
          = window f (max lo a) hi"
proof -
  let ?g = "u_sorted_dates_filter (map f all_years, e) (Some lo) (Some hi)"
  have "sorted (fst ?g)" using assms by (simp add: clip_fst window_sorted)
  then show ?thesis by (simp add: sdf_fst_SN clip_fst [OF assms] window_lower)
qed

lemma clip_clip_snd:
  assumes "yearly f" "lo \<le> ymd2ord 9999 1 1" "hi < ymd2ord 9999 1 1"
  shows "snd (u_sorted_dates_filter
            (u_sorted_dates_filter (map f all_years, e) (Some lo) (Some hi)) (Some a) b) = None"
  by (intro sdf_snd_None clip_snd assms)

abbreviation labels :: "holiday_name \<Rightarrow> date list \<Rightarrow> (date \<times> holiday_name) list" where
  "labels h xs \<equiv> map (\<lambda>x. (x, h)) xs"

lemma every_year_program [simp]:
  "every_year 1 1" "every_year 1 15" "every_year 2 11" "every_year 2 23" "every_year 4 29"
  "every_year 5 3" "every_year 5 4" "every_year 5 5" "every_year 7 20" "every_year 8 11"
  "every_year 9 15" "every_year 10 10" "every_year 11 3" "every_year 11 23" "every_year 12 23"
  by (simp_all add: every_year_def days_in_month_def is_leap_def)

lemma yearly_program [simp]:
  "yearly (fixed 1 1)" "yearly (fixed 1 15)" "yearly (fixed 2 11)" "yearly (fixed 2 23)"
  "yearly (fixed 4 29)" "yearly (fixed 5 3)" "yearly (fixed 5 4)" "yearly (fixed 5 5)"
  "yearly (fixed 7 20)" "yearly (fixed 8 11)" "yearly (fixed 9 15)" "yearly (fixed 10 10)"
  "yearly (fixed 11 3)" "yearly (fixed 11 23)" "yearly (fixed 12 23)"
  "yearly (monday 1 2)" "yearly (monday 7 3)" "yearly (monday 9 3)" "yearly (monday 10 2)"
  by (simp_all add: yearly_fixed yearly_nth_monday)

lemma iter_dates_stream:
  "every_year m d \<Longrightarrow> iter_dates self m d
     = u_sorted_dates_filter (map (fixed m d) all_years, Some ValueError)
         (Some (min_date self)) (Some (max_date self))"
  by (simp add: iter_dates_def u_iter_dates_eq)

lemma iter_nth_monday_stream:
  "1 \<le> m \<Longrightarrow> m \<le> 12 \<Longrightarrow> 1 \<le> n \<Longrightarrow> n \<le> 4 \<Longrightarrow> iter_nth_monday self m n
     = u_sorted_dates_filter (map (monday m n) all_years, Some ValueError)
         (Some (min_date self)) (Some (max_date self))"
  by (simp add: iter_nth_monday_def u_iter_nth_monday_eq)

lemma override_2020_fst:
  "fst (override_2020 self d h)
     = (if min_date self \<le> d \<and> d \<le> max_date self then [(d, h)] else [])"
  by (simp add: override_2020_def)

lemma override_2020_snd: "snd (override_2020 self d h) = None"
  by (simp add: override_2020_def)

lemmas piece_items =
  labelled_def iter_dates_stream iter_nth_monday_stream clip_clip_SS clip_clip_SN
  override_2020_fst override_2020_snd

lemmas piece_end =
  labelled_def iter_dates_stream iter_nth_monday_stream clip_clip_snd override_2020_snd
  ok_range_def

lemma ganjitsu_end: "ok_range self \<Longrightarrow> snd (ganjitsu self) = None"
  by (simp add: ganjitsu_def piece_end)

lemma ganjitsu_items:
  "fst (ganjitsu self) =
       labels Ganjitsu (window (fixed 1 1) (max (min_date self) DATE_00) (max_date self))"
  by (simp add: ganjitsu_def piece_items fst_gen_chain_None)

lemma seijinnohi_end: "ok_range self \<Longrightarrow> snd (seijinnohi self) = None"
  by (simp add: seijinnohi_def piece_end)

lemma seijinnohi_items:
  "snd (seijinnohi self) = None \<Longrightarrow> fst (seijinnohi self) =
       labels Seijinnohi (window (fixed 1 15) (max (min_date self) DATE_00) (min (max_date self) DATE_HM)) @
       labels Seijinnohi (window (monday 1 2) (max (min_date self) DATE_HM) (max_date self))"
  by (simp add: seijinnohi_def piece_items fst_gen_chain_None)

lemma kenkokukinennohi_end: "ok_range self \<Longrightarrow> snd (kenkokukinennohi self) = None"
  by (simp add: kenkokukinennohi_def piece_end)

lemma kenkokukinennohi_items:
  "fst (kenkokukinennohi self) =
       labels Kenkokukinennohi (window (fixed 2 11) (max (min_date self) DATE_KE) (max_date self))"
  by (simp add: kenkokukinennohi_def piece_items fst_gen_chain_None)

lemma showanohi_end: "ok_range self \<Longrightarrow> snd (showanohi self) = None"
  by (simp add: showanohi_def piece_end)

lemma showanohi_items:
  "fst (showanohi self) =
       labels Showanohi (window (fixed 4 29) (max (min_date self) DATE_07) (max_date self))"
  by (simp add: showanohi_def piece_items fst_gen_chain_None)

lemma kenpokinenbi_end: "ok_range self \<Longrightarrow> snd (kenpokinenbi self) = None"
  by (simp add: kenpokinenbi_def piece_end)

lemma kenpokinenbi_items:
  "fst (kenpokinenbi self) =
       labels Kenpokinenbi (window (fixed 5 3) (max (min_date self) DATE_00) (max_date self))"
  by (simp add: kenpokinenbi_def piece_items fst_gen_chain_None)

lemma midorinohi_end: "ok_range self \<Longrightarrow> snd (midorinohi self) = None"
  by (simp add: midorinohi_def piece_end)

lemma midorinohi_items:
  "snd (midorinohi self) = None \<Longrightarrow> fst (midorinohi self) =
       labels Midorinohi (window (fixed 4 29) (max (min_date self) DATE_04) (min (max_date self) DATE_07)) @
       labels Midorinohi (window (fixed 5 4) (max (min_date self) DATE_07) (max_date self))"
  by (simp add: midorinohi_def piece_items fst_gen_chain_None)

lemma kodomonohi_end: "ok_range self \<Longrightarrow> snd (kodomonohi self) = None"
  by (simp add: kodomonohi_def piece_end)

lemma kodomonohi_items:
  "fst (kodomonohi self) =
       labels Kodomonohi (window (fixed 5 5) (max (min_date self) DATE_00) (max_date self))"
  by (simp add: kodomonohi_def piece_items fst_gen_chain_None)

lemma uminohi_end: "ok_range self \<Longrightarrow> snd (uminohi self) = None"
  by (simp add: uminohi_def piece_end)

lemma uminohi_items:
  "snd (uminohi self) = None \<Longrightarrow> fst (uminohi self) =
       labels Uminohi (window (fixed 7 20) (max (min_date self) DATE_05) (min (max_date self) DATE_06)) @
       labels Uminohi (filter (\<lambda>x. year_of x \<noteq> 2020) (window (monday 7 3) (max (min_date self) DATE_06) (max_date self))) @
       (if min_date self \<le> ymd2ord 2020 7 23 \<and> ymd2ord 2020 7 23 \<le> max_date self then [(ymd2ord 2020 7 23, Uminohi)] else [])"
  by (simp add: uminohi_def piece_items fst_gen_chain_None)

lemma yamanohi_end: "ok_range self \<Longrightarrow> snd (yamanohi self) = None"
  by (simp add: yamanohi_def piece_end)

lemma yamanohi_items:
  "snd (yamanohi self) = None \<Longrightarrow> fst (yamanohi self) =
       labels Yamanohi (filter (\<lambda>x. year_of x \<noteq> 2020) (window (fixed 8 11) (max (min_date self) DATE_08) (max_date self))) @
       (if min_date self \<le> ymd2ord 2020 8 10 \<and> ymd2ord 2020 8 10 \<le> max_date self then [(ymd2ord 2020 8 10, Yamanohi)] else [])"
  by (simp add: yamanohi_def piece_items fst_gen_chain_None)

lemma keironohi_end: "ok_range self \<Longrightarrow> snd (keironohi self) = None"
  by (simp add: keironohi_def piece_end)

lemma keironohi_items:
  "snd (keironohi self) = None \<Longrightarrow> fst (keironohi self) =
       labels Keironohi (window (fixed 9 15) (max (min_date self) DATE_01) (min (max_date self) DATE_06)) @
       labels Keironohi (window (monday 9 3) (max (min_date self) DATE_06) (max_date self))"
  by (simp add: keironohi_def piece_items fst_gen_chain_None)

lemma supotsunohi_end: "ok_range self \<Longrightarrow> snd (supotsunohi self) = None"
  by (simp add: supotsunohi_def piece_end)

lemma supotsunohi_items:
  "snd (supotsunohi self) = None \<Longrightarrow> fst (supotsunohi self) =
       labels Supotsunohi (filter (\<lambda>x. year_of x \<noteq> 2020) (window (monday 10 2) (max (min_date self) DATE_09) (max_date self))) @
       (if min_date self \<le> ymd2ord 2020 7 24 \<and> ymd2ord 2020 7 24 \<le> max_date self then [(ymd2ord 2020 7 24, Supotsunohi)] else [])"
  by (simp add: supotsunohi_def piece_items fst_gen_chain_None)

lemma taikunohi_end: "ok_range self \<Longrightarrow> snd (taikunohi self) = None"
  by (simp add: taikunohi_def piece_end)

lemma taikunohi_items:
  "snd (taikunohi self) = None \<Longrightarrow> fst (taikunohi self) =
       labels Taikunohi (window (fixed 10 10) (max (min_date self) DATE_01) (min (max_date self) DATE_HM)) @
       labels Taikunohi (window (monday 10 2) (max (min_date self) DATE_HM) (min (max_date self) DATE_09))"
  by (simp add: taikunohi_def piece_items fst_gen_chain_None)

lemma bunkanohi_end: "ok_range self \<Longrightarrow> snd (bunkanohi self) = None"
  by (simp add: bunkanohi_def piece_end)

lemma bunkanohi_items:
  "fst (bunkanohi self) =
       labels Bunkanohi (window (fixed 11 3) (max (min_date self) DATE_00) (max_date self))"
  by (simp add: bunkanohi_def piece_items fst_gen_chain_None)

lemma kinrokanshanohi_end: "ok_range self \<Longrightarrow> snd (kinrokanshanohi self) = None"
  by (simp add: kinrokanshanohi_def piece_end)

lemma kinrokanshanohi_items:
  "fst (kinrokanshanohi self) =
       labels Kinrokanshanohi (window (fixed 11 23) (max (min_date self) DATE_00) (max_date self))"
  by (simp add: kinrokanshanohi_def piece_items fst_gen_chain_None)

lemma tennotanjobi_end: "ok_range self \<Longrightarrow> snd (tennotanjobi self) = None"
  by (simp add: tennotanjobi_def piece_end)

lemma tennotanjobi_items:
  "snd (tennotanjobi self) = None \<Longrightarrow> fst (tennotanjobi self) =
       labels Tennotanjobi (window (fixed 4 29) (max (min_date self) DATE_00) (min (max_date self) DATE_04)) @
       labels Tennotanjobi (window (fixed 12 23) (max (min_date self) DATE_04) (min (max_date self) DATE_TT)) @
       labels Tennotanjobi (window (fixed 2 23) (max (min_date self) DATE_TT) (max_date self))"
  by (simp add: tennotanjobi_def piece_items fst_gen_chain_None)

section \<open>The equinox generators\<close>

lemma datetime_add_Inr:
  "datetime_add dt td = Inr r \<Longrightarrow>
     r = dt + td \<and> 0 < datetime_date r \<and> datetime_date r \<le> MAXORDINAL"
  by (auto simp: datetime_add_def Let_def split: if_splits)

lemma datetime_date_mono: "a \<le> b \<Longrightarrow> datetime_date a \<le> datetime_date b"
  by (simp add: datetime_date_def US_PER_DAY_def zdiv_mono1)

lemma datetime_date_days: "datetime_date (a + n * US_PER_DAY) = datetime_date a + n"
  by (simp add: datetime_date_def US_PER_DAY_def)

lemma tropical_year_bounds: "365 * US_PER_DAY \<le> tropical_year" "tropical_year \<le> 366 * US_PER_DAY"
  by (simp_all add: tropical_year_def US_PER_DAY_def)

lemma date_after_year:
  "datetime_date dt + 365 \<le> datetime_date (dt + tropical_year)"
  "datetime_date (dt + tropical_year) \<le> datetime_date dt + 366"
proof -
  have "datetime_date (dt + 365 * US_PER_DAY) \<le> datetime_date (dt + tropical_year)"
    using tropical_year_bounds by (intro datetime_date_mono) simp
  then show "datetime_date dt + 365 \<le> datetime_date (dt + tropical_year)"
    by (simp only: datetime_date_days)
  have "datetime_date (dt + tropical_year) \<le> datetime_date (dt + 366 * US_PER_DAY)"
    using tropical_year_bounds by (intro datetime_date_mono) simp
  then show "datetime_date (dt + tropical_year) \<le> datetime_date dt + 366"
    by (simp only: datetime_date_days)
qed

lemma date_before_year:
  "datetime_date (dt - tropical_year) + 365 \<le> datetime_date dt"
  "datetime_date dt \<le> datetime_date (dt - tropical_year) + 366"
  using date_after_year [of "dt - tropical_year"] by simp_all

lemma shunbunnohi_back_keys:
  "(x, h) \<in> set (fst (shunbunnohi_back self lo dt)) \<Longrightarrow>
     lo \<le> x \<and> x < max_date self \<and> x \<le> datetime_date dt \<and> h = Shunbunnohi"
proof (induction self lo dt rule: shunbunnohi_back.induct)
  case (1 self lo dt)
  show ?case
  proof (cases "lo \<le> datetime_date dt")
    case True
    show ?thesis
    proof (cases "datetime_add dt (- tropical_year)")
      case (Inl e)
      with "1.prems" True show ?thesis
        by (subst (asm) shunbunnohi_back.simps) (auto split: if_splits)
    next
      case (Inr dt')
      then have dt': "dt' = dt - tropical_year" by (auto dest: datetime_add_Inr)
      from "1.prems" True Inr
      have "(x, h) = (datetime_date dt, Shunbunnohi) \<and> datetime_date dt < max_date self
          \<or> (x, h) \<in> set (fst (shunbunnohi_back self lo dt'))"
        by (subst (asm) shunbunnohi_back.simps) (auto split: if_splits simp: gen_chain_def)
      then show ?thesis
      proof
        assume "(x, h) = (datetime_date dt, Shunbunnohi) \<and> datetime_date dt < max_date self"
        with True show ?thesis by simp
      next
        assume "(x, h) \<in> set (fst (shunbunnohi_back self lo dt'))"
        from "1.IH" [OF True Inr this] date_before_year(1) [of dt] dt'
        show ?thesis by simp
      qed
    qed
  next
    case False
    with "1.prems" show ?thesis by (subst (asm) shunbunnohi_back.simps) simp
  qed
qed

lemma shunbunnohi_forward_keys:
  "(x, h) \<in> set (fst (shunbunnohi_forward self lo dt)) \<Longrightarrow>
     lo \<le> x \<and> x < max_date self \<and> datetime_date dt \<le> x \<and> h = Shunbunnohi"
proof (induction self lo dt rule: shunbunnohi_forward.induct)
  case (1 self lo dt)
  show ?case
  proof (cases "datetime_date dt < max_date self")
    case True
    show ?thesis
    proof (cases "datetime_add dt tropical_year")
      case (Inl e)
      with "1.prems" True show ?thesis
        by (subst (asm) shunbunnohi_forward.simps) (auto split: if_splits)
    next
      case (Inr dt')
      then have dt': "dt' = dt + tropical_year" by (auto dest: datetime_add_Inr)
      from "1.prems" True Inr
      have "(x, h) = (datetime_date dt, Shunbunnohi) \<and> lo \<le> datetime_date dt
          \<or> (x, h) \<in> set (fst (shunbunnohi_forward self lo dt'))"
        by (subst (asm) shunbunnohi_forward.simps) (auto split: if_splits simp: gen_chain_def)
      then show ?thesis
      proof
        assume "(x, h) = (datetime_date dt, Shunbunnohi) \<and> lo \<le> datetime_date dt"
        with True show ?thesis by simp
      next
        assume "(x, h) \<in> set (fst (shunbunnohi_forward self lo dt'))"
        from "1.IH" [OF True Inr this] date_after_year(1) [of dt] dt'
        show ?thesis by simp
      qed
    qed
  next
    case False
    with "1.prems" show ?thesis by (subst (asm) shunbunnohi_forward.simps) simp
  qed
qed

lemma shubunnohi_back_keys:
  "(x, h) \<in> set (fst (shubunnohi_back lo dt)) \<Longrightarrow>
     lo \<le> x \<and> x \<le> datetime_date dt \<and> h = Shubunnohi"
proof (induction lo dt rule: shubunnohi_back.induct)
  case (1 lo dt)
  show ?case
  proof (cases "lo \<le> datetime_date dt")
    case True
    show ?thesis
    proof (cases "datetime_add dt (- tropical_year)")
      case (Inl e)
      with "1.prems" True show ?thesis
        by (subst (asm) shubunnohi_back.simps) auto
    next
      case (Inr dt')
      then have dt': "dt' = dt - tropical_year" by (auto dest: datetime_add_Inr)
      from "1.prems" True Inr
      have "(x, h) = (datetime_date dt, Shubunnohi)
          \<or> (x, h) \<in> set (fst (shubunnohi_back lo dt'))"
        by (subst (asm) shubunnohi_back.simps) auto
      then show ?thesis
      proof
        assume "(x, h) = (datetime_date dt, Shubunnohi)"
        with True show ?thesis by simp
      next
        assume "(x, h) \<in> set (fst (shubunnohi_back lo dt'))"
        from "1.IH" [OF True Inr this] date_before_year(1) [of dt] dt'
        show ?thesis by simp
      qed
    qed
  next
    case False
    with "1.prems" show ?thesis by (subst (asm) shubunnohi_back.simps) simp
  qed
qed

lemma shubunnohi_forward_keys:
  "(x, h) \<in> set (fst (shubunnohi_forward self dt)) \<Longrightarrow>
     x < max_date self \<and> datetime_date dt \<le> x \<and> h = Shubunnohi"
proof (induction self dt rule: shubunnohi_forward.induct)
  case (1 self dt)
  show ?case
  proof (cases "datetime_date dt < max_date self")
    case True
    show ?thesis
    proof (cases "datetime_add dt tropical_year")
      case (Inl e)
      with "1.prems" True show ?thesis
        by (subst (asm) shubunnohi_forward.simps) auto
    next
      case (Inr dt')
      then have dt': "dt' = dt + tropical_year" by (auto dest: datetime_add_Inr)
      from "1.prems" True Inr
      have "(x, h) = (datetime_date dt, Shubunnohi)
          \<or> (x, h) \<in> set (fst (shubunnohi_forward self dt'))"
        by (subst (asm) shubunnohi_forward.simps) auto
      then show ?thesis
      proof
        assume "(x, h) = (datetime_date dt, Shubunnohi)"
        with True show ?thesis by simp
      next
        assume "(x, h) \<in> set (fst (shubunnohi_forward self dt'))"
        from "1.IH" [OF True Inr this] date_after_year(1) [of dt] dt'
        show ?thesis by simp
      qed
    qed
  next
    case False
    with "1.prems" show ?thesis by (subst (asm) shubunnohi_forward.simps) simp
  qed
qed

lemma shunbunnohi_back_mem_step:
  assumes "(x, h) \<in> set (fst (shunbunnohi_back self lo dt))"
  shows "x = datetime_date dt \<or> (x, h) \<in> set (fst (shunbunnohi_back self lo (dt - tropical_year)))"
proof (cases "datetime_add dt (- tropical_year)")
  case (Inl e)
  with assms show ?thesis
    by (subst (asm) shunbunnohi_back.simps) (auto split: if_splits)
next
  case (Inr dt')
  then have "dt' = dt - tropical_year" by (auto dest: datetime_add_Inr)
  with assms Inr show ?thesis
    by (subst (asm) shunbunnohi_back.simps) (auto split: if_splits simp: gen_chain_def)
qed

lemma shunbunnohi_forward_mem_step:
  assumes "(x, h) \<in> set (fst (shunbunnohi_forward self lo dt))"
  shows "x = datetime_date dt \<or> (x, h) \<in> set (fst (shunbunnohi_forward self lo (dt + tropical_year)))"
proof (cases "datetime_add dt tropical_year")
  case (Inl e)
  with assms show ?thesis
    by (subst (asm) shunbunnohi_forward.simps) (auto split: if_splits)
next
  case (Inr dt')
  then have "dt' = dt + tropical_year" by (auto dest: datetime_add_Inr)
  with assms Inr show ?thesis
    by (subst (asm) shunbunnohi_forward.simps) (auto split: if_splits simp: gen_chain_def)
qed

lemma shubunnohi_back_mem_step:
  assumes "(x, h) \<in> set (fst (shubunnohi_back lo dt))"
  shows "x = datetime_date dt \<or> (x, h) \<in> set (fst (shubunnohi_back lo (dt - tropical_year)))"
proof (cases "datetime_add dt (- tropical_year)")
  case (Inl e)
  with assms show ?thesis
    by (subst (asm) shubunnohi_back.simps) (auto split: if_splits)
next
  case (Inr dt')
  then have "dt' = dt - tropical_year" by (auto dest: datetime_add_Inr)
  with assms Inr show ?thesis
    by (subst (asm) shubunnohi_back.simps) (auto split: if_splits)
qed

lemma shubunnohi_forward_mem_step:
  assumes "(x, h) \<in> set (fst (shubunnohi_forward self dt))"
  shows "x = datetime_date dt \<or> (x, h) \<in> set (fst (shubunnohi_forward self (dt + tropical_year)))"
proof (cases "datetime_add dt tropical_year")
  case (Inl e)
  with assms show ?thesis
    by (subst (asm) shubunnohi_forward.simps) (auto split: if_splits)
next
  case (Inr dt')
  then have "dt' = dt + tropical_year" by (auto dest: datetime_add_Inr)
  with assms Inr show ?thesis
    by (subst (asm) shubunnohi_forward.simps) (auto split: if_splits)
qed

text \<open>The anchors of the two generators and the dates of the steps next to them.\<close>

lemmas calendar_numbers =
  datetime_of_def ymd2ord_def days_before_year_def days_before_month_def is_leap_def
  US_PER_DAY_def minutes_def tropical_year_def datetime_date_def MAXORDINAL_def

lemma shunbunnohi_keys:
  assumes "(x, h) \<in> set (fst (shunbunnohi self))"
  shows "h = Shunbunnohi \<and> max DATE_00 (min_date self) \<le> x \<and> x < max_date self
    \<and> (x \<le> ymd2ord 2017 3 20 \<or> x = ymd2ord 2018 3 21 \<or> x = ymd2ord 2019 3 21
        \<or> x = ymd2ord 2020 3 20 \<or> ymd2ord 2021 3 20 \<le> x)"
proof -
  define a where "a = datetime_of 2018 3 21 1 15 - minutes 8"
  define b where "b = a + minutes (8 + 4) + tropical_year"
  define lo where "lo = max DATE_00 (min_date self)"
  have s: "shunbunnohi self = gen_chain (shunbunnohi_back self lo a) (shunbunnohi_forward self lo b)"
    by (simp add: shunbunnohi_def Let_def a_def lo_def b_def datetime_add_def calendar_numbers)
  from assms have "(x, h) \<in> set (fst (shunbunnohi_back self lo a))
      \<or> (x, h) \<in> set (fst (shunbunnohi_forward self lo b))"
    using set_gen_chain_subset [of "shunbunnohi_back self lo a" "shunbunnohi_forward self lo b"]
    unfolding s by blast
  then show ?thesis
  proof
    assume m: "(x, h) \<in> set (fst (shunbunnohi_back self lo a))"
    have d0: "datetime_date a = ymd2ord 2018 3 21" by (simp add: a_def calendar_numbers)
    have d1: "datetime_date (a - tropical_year) = ymd2ord 2017 3 20"
      by (simp add: a_def calendar_numbers)
    from shunbunnohi_back_mem_step [OF m] shunbunnohi_back_keys [of x h self lo "a - tropical_year"]
      shunbunnohi_back_keys [OF m]
    show ?thesis unfolding d0 d1 lo_def by blast
  next
    assume m: "(x, h) \<in> set (fst (shunbunnohi_forward self lo b))"
    have d0: "datetime_date b = ymd2ord 2019 3 21" by (simp add: b_def a_def calendar_numbers)
    have d1: "datetime_date (b + tropical_year) = ymd2ord 2020 3 20"
      by (simp add: b_def a_def calendar_numbers)
    have d2: "datetime_date (b + tropical_year + tropical_year) = ymd2ord 2021 3 20"
      by (simp add: b_def a_def calendar_numbers)
    from shunbunnohi_forward_mem_step [OF m]
      shunbunnohi_forward_mem_step [of x h self lo "b + tropical_year"]
      shunbunnohi_forward_keys [of x h self lo "b + tropical_year + tropical_year"]
      shunbunnohi_forward_keys [OF m]
    show ?thesis unfolding d0 d1 d2 lo_def by blast
  qed
qed

lemma shubunnohi_keys:
  assumes "(x, h) \<in> set (fst (shubunnohi self))"
  shows "h = Shubunnohi \<and> max DATE_00 (min_date self) \<le> x \<and> x < max_date self
    \<and> (x \<le> ymd2ord 2017 9 23 \<or> x = ymd2ord 2018 9 23 \<or> x = ymd2ord 2019 9 23
        \<or> x = ymd2ord 2020 9 22 \<or> ymd2ord 2021 9 23 \<le> x)"
proof -
  define a where "a = datetime_of 2018 9 23 10 54 - minutes 2"
  define b where "b = a + tropical_year"
  define lo where "lo = max DATE_00 (min_date self)"
  have s: "shubunnohi self = gen_chain
      (if ymd2ord 2018 9 23 < max_date self then shubunnohi_back lo a else gen_empty)
      (if ymd2ord 2019 9 23 \<ge> lo then shubunnohi_forward self b else gen_empty)"
    by (simp add: shubunnohi_def Let_def a_def lo_def b_def datetime_add_def calendar_numbers)
  have d0: "datetime_date a = ymd2ord 2018 9 23" by (simp add: a_def calendar_numbers)
  have e0: "datetime_date b = ymd2ord 2019 9 23" by (simp add: b_def a_def calendar_numbers)
  from assms have "(x, h) \<in> set (fst (shubunnohi_back lo a)) \<and> datetime_date a < max_date self
      \<or> (x, h) \<in> set (fst (shubunnohi_forward self b)) \<and> lo \<le> datetime_date b"
    using set_gen_chain_subset [of "if ymd2ord 2018 9 23 < max_date self then shubunnohi_back lo a else gen_empty"
        "if ymd2ord 2019 9 23 \<ge> lo then shubunnohi_forward self b else gen_empty"]
    unfolding s d0 e0 by (auto split: if_splits)
  then show ?thesis
  proof
    assume m: "(x, h) \<in> set (fst (shubunnohi_back lo a)) \<and> datetime_date a < max_date self"
    have d1: "datetime_date (a - tropical_year) = ymd2ord 2017 9 23"
      by (simp add: a_def calendar_numbers)
    from m shubunnohi_back_mem_step [of x h lo a] shubunnohi_back_keys [of x h lo "a - tropical_year"]
      shubunnohi_back_keys [of x h lo a]
    show ?thesis unfolding d0 d1 lo_def by auto
  next
    assume m: "(x, h) \<in> set (fst (shubunnohi_forward self b)) \<and> lo \<le> datetime_date b"
    have e1: "datetime_date (b + tropical_year) = ymd2ord 2020 9 22"
      by (simp add: b_def a_def calendar_numbers)
    have e2: "datetime_date (b + tropical_year + tropical_year) = ymd2ord 2021 9 23"
      by (simp add: b_def a_def calendar_numbers)
    from m shubunnohi_forward_mem_step [of x h self b]
      shubunnohi_forward_mem_step [of x h self "b + tropical_year"]
      shubunnohi_forward_keys [of x h self "b + tropical_year + tropical_year"]
      shubunnohi_forward_keys [of x h self b]
    show ?thesis unfolding e0 e1 e2 lo_def by auto
  qed
qed

lemma shunbunnohi_back_end:
  "366 < lo \<Longrightarrow> datetime_date dt \<le> MAXORDINAL \<Longrightarrow> snd (shunbunnohi_back self lo dt) = None"
proof (induction self lo dt rule: shunbunnohi_back.induct)
  case (1 self lo dt)
  show ?case
  proof (cases "lo \<le> datetime_date dt")
    case True
    have add: "datetime_add dt (- tropical_year) = Inr (dt - tropical_year)"
      using date_before_year [of dt] True "1.prems" by (simp add: datetime_add_def)
    have "snd (shunbunnohi_back self lo (dt - tropical_year)) = None"
      using "1.IH" [OF True add] "1.prems" date_before_year(1) [of dt] by simp
    with True add show ?thesis by (subst shunbunnohi_back.simps) simp
  next
    case False
    then show ?thesis by (subst shunbunnohi_back.simps) simp
  qed
qed

lemma shunbunnohi_forward_end:
  "max_date self \<le> MAXORDINAL - 365 \<Longrightarrow> 0 < datetime_date dt \<Longrightarrow>
     snd (shunbunnohi_forward self lo dt) = None"
proof (induction self lo dt rule: shunbunnohi_forward.induct)
  case (1 self lo dt)
  show ?case
  proof (cases "datetime_date dt < max_date self")
    case True
    have add: "datetime_add dt tropical_year = Inr (dt + tropical_year)"
      using date_after_year [of dt] True "1.prems" by (simp add: datetime_add_def)
    have "snd (shunbunnohi_forward self lo (dt + tropical_year)) = None"
      using "1.IH" [OF True add] "1.prems" date_after_year(1) [of dt] by simp
    with True add show ?thesis by (subst shunbunnohi_forward.simps) simp
  next
    case False
    then show ?thesis by (subst shunbunnohi_forward.simps) simp
  qed
qed

lemma shubunnohi_back_end:
  "366 < lo \<Longrightarrow> datetime_date dt \<le> MAXORDINAL \<Longrightarrow> snd (shubunnohi_back lo dt) = None"
proof (induction lo dt rule: shubunnohi_back.induct)
  case (1 lo dt)
  show ?case
  proof (cases "lo \<le> datetime_date dt")
    case True
    have add: "datetime_add dt (- tropical_year) = Inr (dt - tropical_year)"
      using date_before_year [of dt] True "1.prems" by (simp add: datetime_add_def)
    have "snd (shubunnohi_back lo (dt - tropical_year)) = None"
      using "1.IH" [OF True add] "1.prems" date_before_year(1) [of dt] by simp
    with True add show ?thesis by (subst shubunnohi_back.simps) simp
  next
    case False
    then show ?thesis by (subst shubunnohi_back.simps) simp
  qed
qed

lemma shubunnohi_forward_end:
  "max_date self \<le> MAXORDINAL - 365 \<Longrightarrow> 0 < datetime_date dt \<Longrightarrow>
     snd (shubunnohi_forward self dt) = None"
proof (induction self dt rule: shubunnohi_forward.induct)
  case (1 self dt)
  show ?case
  proof (cases "datetime_date dt < max_date self")
    case True
    have add: "datetime_add dt tropical_year = Inr (dt + tropical_year)"
      using date_after_year [of dt] True "1.prems" by (simp add: datetime_add_def)
    have "snd (shubunnohi_forward self (dt + tropical_year)) = None"
      using "1.IH" [OF True add] "1.prems" date_after_year(1) [of dt] by simp
    with True add show ?thesis by (subst shubunnohi_forward.simps) simp
  next
    case False
    then show ?thesis by (subst shubunnohi_forward.simps) simp
  qed
qed

lemma ok_range_max: "ok_range self \<Longrightarrow> max_date self \<le> MAXORDINAL - 365"
  by (simp add: ok_range_def calendar_numbers)

lemma shunbunnohi_end: "ok_range self \<Longrightarrow> snd (shunbunnohi self) = None"
proof -
  assume ok: "ok_range self"
  define a where "a = datetime_of 2018 3 21 1 15 - minutes 8"
  define b where "b = a + minutes (8 + 4) + tropical_year"
  define lo where "lo = max DATE_00 (min_date self)"
  have s: "shunbunnohi self = gen_chain (shunbunnohi_back self lo a) (shunbunnohi_forward self lo b)"
    by (simp add: shunbunnohi_def Let_def a_def lo_def b_def datetime_add_def calendar_numbers)
  have "366 < lo" by (simp add: lo_def DATE_00_def calendar_numbers)
  moreover have "datetime_date a \<le> MAXORDINAL" by (simp add: a_def calendar_numbers)
  ultimately have "snd (shunbunnohi_back self lo a) = None" by (rule shunbunnohi_back_end)
  moreover have "0 < datetime_date b" by (simp add: b_def a_def calendar_numbers)
  then have "snd (shunbunnohi_forward self lo b) = None"
    using ok_range_max [OF ok] by (intro shunbunnohi_forward_end)
  ultimately show ?thesis by (simp add: s)
qed

lemma shubunnohi_end: "ok_range self \<Longrightarrow> snd (shubunnohi self) = None"
proof -
  assume ok: "ok_range self"
  define a where "a = datetime_of 2018 9 23 10 54 - minutes 2"
  define b where "b = a + tropical_year"
  define lo where "lo = max DATE_00 (min_date self)"
  have s: "shubunnohi self = gen_chain
      (if ymd2ord 2018 9 23 < max_date self then shubunnohi_back lo a else gen_empty)
      (if ymd2ord 2019 9 23 \<ge> lo then shubunnohi_forward self b else gen_empty)"
    by (simp add: shubunnohi_def Let_def a_def lo_def b_def datetime_add_def calendar_numbers)
  have "366 < lo" by (simp add: lo_def DATE_00_def calendar_numbers)
  moreover have "datetime_date a \<le> MAXORDINAL" by (simp add: a_def calendar_numbers)
  ultimately have "snd (shubunnohi_back lo a) = None" by (rule shubunnohi_back_end)
  moreover have "0 < datetime_date b" by (simp add: b_def a_def calendar_numbers)
  then have "snd (shubunnohi_forward self b) = None"
    using ok_range_max [OF ok] by (intro shubunnohi_forward_end)
  ultimately show ?thesis by (simp add: s)
qed

lemma special_end: "snd (special self) = None"
  by (simp add: special_def u_holidays_filter_def u_special_def)

lemma special_items:
  "fst (special self) = filter (\<lambda>p. min_date self \<le> fst p \<and> fst p \<le> max_date self) (fst u_special)"
  by (simp add: special_def u_holidays_filter_def)

lemma special_range:
  "(x, h) \<in> set (fst (special self)) \<Longrightarrow> min_date self \<le> x \<and> x \<le> max_date self"
  by (auto simp: special_items)

lemma window_bounds: "x \<in> set (window f lo hi) \<Longrightarrow> lo \<le> x \<and> x \<le> hi"
  by (simp add: window_def)

lemma ganjitsu_range:
  "snd (ganjitsu self) = None \<Longrightarrow> (x, h) \<in> set (fst (ganjitsu self)) \<Longrightarrow>
     min_date self \<le> x \<and> x \<le> max_date self"
  by (auto simp: ganjitsu_items dest!: window_bounds split: if_splits)

lemma seijinnohi_range:
  "snd (seijinnohi self) = None \<Longrightarrow> (x, h) \<in> set (fst (seijinnohi self)) \<Longrightarrow>
     min_date self \<le> x \<and> x \<le> max_date self"
  by (auto simp: seijinnohi_items dest!: window_bounds split: if_splits)

lemma kenkokukinennohi_range:
  "snd (kenkokukinennohi self) = None \<Longrightarrow> (x, h) \<in> set (fst (kenkokukinennohi self)) \<Longrightarrow>
     min_date self \<le> x \<and> x \<le> max_date self"
  by (auto simp: kenkokukinennohi_items dest!: window_bounds split: if_splits)

lemma showanohi_range:
  "snd (showanohi self) = None \<Longrightarrow> (x, h) \<in> set (fst (showanohi self)) \<Longrightarrow>
     min_date self \<le> x \<and> x \<le> max_date self"
  by (auto simp: showanohi_items dest!: window_bounds split: if_splits)

lemma kenpokinenbi_range:
  "snd (kenpokinenbi self) = None \<Longrightarrow> (x, h) \<in> set (fst (kenpokinenbi self)) \<Longrightarrow>
     min_date self \<le> x \<and> x \<le> max_date self"
  by (auto simp: kenpokinenbi_items dest!: window_bounds split: if_splits)

lemma midorinohi_range:
  "snd (midorinohi self) = None \<Longrightarrow> (x, h) \<in> set (fst (midorinohi self)) \<Longrightarrow>
     min_date self \<le> x \<and> x \<le> max_date self"
  by (auto simp: midorinohi_items dest!: window_bounds split: if_splits)

lemma kodomonohi_range:
  "snd (kodomonohi self) = None \<Longrightarrow> (x, h) \<in> set (fst (kodomonohi self)) \<Longrightarrow>
     min_date self \<le> x \<and> x \<le> max_date self"
  by (auto simp: kodomonohi_items dest!: window_bounds split: if_splits)

lemma uminohi_range:
  "snd (uminohi self) = None \<Longrightarrow> (x, h) \<in> set (fst (uminohi self)) \<Longrightarrow>
     min_date self \<le> x \<and> x \<le> max_date self"
  by (auto simp: uminohi_items dest!: window_bounds split: if_splits)

lemma yamanohi_range:
  "snd (yamanohi self) = None \<Longrightarrow> (x, h) \<in> set (fst (yamanohi self)) \<Longrightarrow>
     min_date self \<le> x \<and> x \<le> max_date self"
  by (auto simp: yamanohi_items dest!: window_bounds split: if_splits)

lemma keironohi_range:
  "snd (keironohi self) = None \<Longrightarrow> (x, h) \<in> set (fst (keironohi self)) \<Longrightarrow>
     min_date self \<le> x \<and> x \<le> max_date self"
  by (auto simp: keironohi_items dest!: window_bounds split: if_splits)

lemma supotsunohi_range:
  "snd (supotsunohi self) = None \<Longrightarrow> (x, h) \<in> set (fst (supotsunohi self)) \<Longrightarrow>
     min_date self \<le> x \<and> x \<le> max_date self"
  by (auto simp: supotsunohi_items dest!: window_bounds split: if_splits)

lemma taikunohi_range:
  "snd (taikunohi self) = None \<Longrightarrow> (x, h) \<in> set (fst (taikunohi self)) \<Longrightarrow>
     min_date self \<le> x \<and> x \<le> max_date self"
  by (auto simp: taikunohi_items dest!: window_bounds split: if_splits)

lemma bunkanohi_range:
  "snd (bunkanohi self) = None \<Longrightarrow> (x, h) \<in> set (fst (bunkanohi self)) \<Longrightarrow>
     min_date self \<le> x \<and> x \<le> max_date self"
  by (auto simp: bunkanohi_items dest!: window_bounds split: if_splits)

lemma kinrokanshanohi_range:
  "snd (kinrokanshanohi self) = None \<Longrightarrow> (x, h) \<in> set (fst (kinrokanshanohi self)) \<Longrightarrow>
     min_date self \<le> x \<and> x \<le> max_date self"
  by (auto simp: kinrokanshanohi_items dest!: window_bounds split: if_splits)

lemma tennotanjobi_range:
  "snd (tennotanjobi self) = None \<Longrightarrow> (x, h) \<in> set (fst (tennotanjobi self)) \<Longrightarrow>
     min_date self \<le> x \<and> x \<le> max_date self"
  by (auto simp: tennotanjobi_items dest!: window_bounds split: if_splits)

section \<open>The base map\<close>

lemma base_chain_None_iff:
  "snd (base_chain self) = None \<longleftrightarrow>
     snd (ganjitsu self) = None \<and> snd (seijinnohi self) = None
     \<and> snd (kenkokukinennohi self) = None \<and> snd (shunbunnohi self) = None
     \<and> snd (showanohi self) = None \<and> snd (kenpokinenbi self) = None
     \<and> snd (midorinohi self) = None \<and> snd (kodomonohi self) = None
     \<and> snd (uminohi self) = None \<and> snd (yamanohi self) = None
     \<and> snd (keironohi self) = None \<and> snd (shubunnohi self) = None
     \<and> snd (supotsunohi self) = None \<and> snd (taikunohi self) = None
     \<and> snd (bunkanohi self) = None \<and> snd (kinrokanshanohi self) = None
     \<and> snd (tennotanjobi self) = None"
  by (simp add: base_chain_def special_end)

lemma base_chain_fst:
  assumes "snd (base_chain self) = None"
  shows "fst (base_chain self) =
     fst (ganjitsu self) @ fst (seijinnohi self) @ fst (kenkokukinennohi self)
     @ fst (shunbunnohi self) @ fst (showanohi self) @ fst (kenpokinenbi self)
     @ fst (midorinohi self) @ fst (kodomonohi self) @ fst (uminohi self)
     @ fst (yamanohi self) @ fst (keironohi self) @ fst (shubunnohi self)
     @ fst (supotsunohi self) @ fst (taikunohi self) @ fst (bunkanohi self)
     @ fst (kinrokanshanohi self) @ fst (tennotanjobi self) @ fst (special self)"
  using assms unfolding base_chain_None_iff
  by (simp add: base_chain_def fst_gen_chain_None special_end)

lemma base_chain_end: "ok_range self \<Longrightarrow> snd (base_chain self) = None"
  by (simp add: base_chain_None_iff ganjitsu_end seijinnohi_end kenkokukinennohi_end
      shunbunnohi_end showanohi_end kenpokinenbi_end midorinohi_end kodomonohi_end uminohi_end
      yamanohi_end keironohi_end shubunnohi_end supotsunohi_end taikunohi_end bunkanohi_end
      kinrokanshanohi_end tennotanjobi_end)

lemma base_in_range:
  assumes n: "snd (base_chain self) = None" and m: "(x, h) \<in> set (fst (base_chain self))"
  shows "min_date self \<le> x \<and> x \<le> max_date self"
proof -
  note e = n [unfolded base_chain_None_iff]
  from m consider
      "(x, h) \<in> set (fst (ganjitsu self))" | "(x, h) \<in> set (fst (seijinnohi self))"
    | "(x, h) \<in> set (fst (kenkokukinennohi self))" | "(x, h) \<in> set (fst (shunbunnohi self))"
    | "(x, h) \<in> set (fst (showanohi self))" | "(x, h) \<in> set (fst (kenpokinenbi self))"
    | "(x, h) \<in> set (fst (midorinohi self))" | "(x, h) \<in> set (fst (kodomonohi self))"
    | "(x, h) \<in> set (fst (uminohi self))" | "(x, h) \<in> set (fst (yamanohi self))"
    | "(x, h) \<in> set (fst (keironohi self))" | "(x, h) \<in> set (fst (shubunnohi self))"
    | "(x, h) \<in> set (fst (supotsunohi self))" | "(x, h) \<in> set (fst (taikunohi self))"
    | "(x, h) \<in> set (fst (bunkanohi self))" | "(x, h) \<in> set (fst (kinrokanshanohi self))"
    | "(x, h) \<in> set (fst (tennotanjobi self))" | "(x, h) \<in> set (fst (special self))"
    unfolding base_chain_fst [OF n] by auto
  then show ?thesis
  proof cases
    case 1 then show ?thesis using e by (intro ganjitsu_range) auto
  next
    case 2 then show ?thesis using e by (intro seijinnohi_range) auto
  next
    case 3 then show ?thesis using e by (intro kenkokukinennohi_range) auto
  next
    case 4 then show ?thesis using shunbunnohi_keys [of x h self] by auto
  next
    case 5 then show ?thesis using e by (intro showanohi_range) auto
  next
    case 6 then show ?thesis using e by (intro kenpokinenbi_range) auto
  next
    case 7 then show ?thesis using e by (intro midorinohi_range) auto
  next
    case 8 then show ?thesis using e by (intro kodomonohi_range) auto
  next
    case 9 then show ?thesis using e by (intro uminohi_range) auto
  next
    case 10 then show ?thesis using e by (intro yamanohi_range) auto
  next
    case 11 then show ?thesis using e by (intro keironohi_range) auto
  next
    case 12 then show ?thesis using shubunnohi_keys [of x h self] by auto
  next
    case 13 then show ?thesis using e by (intro supotsunohi_range) auto
  next
    case 14 then show ?thesis using e by (intro taikunohi_range) auto
  next
    case 15 then show ?thesis using e by (intro bunkanohi_range) auto
  next
    case 16 then show ?thesis using e by (intro kinrokanshanohi_range) auto
  next
    case 17 then show ?thesis using e by (intro tennotanjobi_range) auto
  next
    case 18 then show ?thesis by (rule special_range)
  qed
qed

lemma dict_of_Inr:
  "dict_of g = Inr h \<longleftrightarrow> snd g = None \<and> h = dict_update [] (fst g)"
  by (auto simp: dict_of_def split: option.splits)

lemma dict_contains_Nil [simp]: "\<not> dict_contains [] k"
  by (simp add: dict_contains_def)

lemma dict_contains_dict_of:
  "dict_of g = Inr h \<Longrightarrow> dict_contains h k \<longleftrightarrow> k \<in> fst ` set (fst g)"
  by (simp add: dict_of_Inr dict_contains_update)

lemma base_keys_in_range:
  assumes "dict_of (base_chain self) = Inr base" "dict_contains base x"
  shows "min_date self \<le> x \<and> x \<le> max_date self"
proof -
  from assms obtain h where "(x, h) \<in> set (fst (base_chain self))"
    by (auto simp: dict_contains_dict_of)
  moreover have "snd (base_chain self) = None" using assms(1) by (simp add: dict_of_Inr)
  ultimately show ?thesis by (intro base_in_range)
qed

section \<open>Completion without an error\<close>

lemma gen_for_list_end:
  "e = None \<Longrightarrow> list_all (\<lambda>x. snd (body x) = None) xs \<Longrightarrow> snd (gen_for_list body xs e) = None"
  by (induction xs) simp_all

lemma iter_all_dates_loop_end:
  "0 \<le> a \<Longrightarrow> b < MAXORDINAL \<Longrightarrow> snd (iter_all_dates_loop a b) = None"
proof (induction a b rule: iter_all_dates_loop.induct)
  case (1 date hi)
  show ?case
  proof (cases "date \<le> hi")
    case True
    have add: "date_add date 1 = Inr (date + 1)"
      using True "1.prems" by (simp add: date_add_def)
    have "snd (iter_all_dates_loop (date + 1) hi) = None"
      using "1.IH" [OF True add] "1.prems" by simp
    with True add show ?thesis by (subst iter_all_dates_loop.simps) simp
  next
    case False
    then show ?thesis by (subst iter_all_dates_loop.simps) simp
  qed
qed

lemma skip_holidays_ok:
  "(\<forall>k. dict_contains h k \<longrightarrow> k \<le> m) \<Longrightarrow> m < MAXORDINAL \<Longrightarrow> 0 < one \<Longrightarrow>
     \<exists>r. skip_holidays h one = Inr r"
proof (induction h one rule: skip_holidays.induct)
  case (1 holidays one)
  show ?case
  proof (cases "dict_contains holidays one")
    case True
    then have "one \<le> m" using "1.prems" by simp
    then have add: "date_add one 1 = Inr (one + 1)"
      using "1.prems" by (simp add: date_add_def)
    from "1.IH" [OF True add] "1.prems" obtain r where "skip_holidays holidays (one + 1) = Inr r"
      by auto
    with True add show ?thesis by (subst skip_holidays.simps) simp
  next
    case False
    then show ?thesis by (subst skip_holidays.simps) simp
  qed
qed

lemma body_end:
  assumes k: "\<forall>k. dict_contains h k \<longrightarrow> k \<le> max_date self"
    and m: "max_date self \<le> MAXORDINAL - 365" and d: "1 \<le> d" "d \<le> max_date self"
  shows "snd (kokuminnokyujitsu_body self h d) = None"
proof -
  have a1: "date_add d 1 = Inr (d + 1)" and a2: "date_add d 2 = Inr (d + 2)"
    using m d by (simp_all add: date_add_def)
  have "max_date self < MAXORDINAL" using m by simp
  from skip_holidays_ok [OF k this, of "d + 1"] d obtain r where r: "skip_holidays h (d + 1) = Inr r"
    by auto
  have s: "snd (sandwich self h d) = None" by (simp add: sandwich_def a1 a2)
  have f1: "snd (gen_bind (furikae_next_day self h d)
      (\<lambda>r. case r of Some one \<Rightarrow> gen_yield (one, Furikae) gen_empty | None \<Rightarrow> gen_empty)) = None"
    by (simp add: furikae_next_day_def a1)
  have f2: "snd (gen_bind (furikae_next_day self h d)
      (\<lambda>r. case r of Some one \<Rightarrow> gen_yield (one, Furikae) gen_empty | None \<Rightarrow> sandwich self h d)) = None"
    by (simp add: furikae_next_day_def a1 s)
  have f3: "snd (gen_bind (furikae_next_free self h d)
      (\<lambda>r. case r of Some one \<Rightarrow> gen_yield (one, Furikae) gen_empty | None \<Rightarrow> sandwich self h d)) = None"
    by (simp add: furikae_next_free_def a1 r s)
  show ?thesis unfolding kokuminnokyujitsu_body_def using f1 f2 f3 by simp
qed

lemma pass_end:
  assumes k: "\<forall>k. dict_contains h k \<longrightarrow> k \<le> max_date self"
    and m: "max_date self \<le> MAXORDINAL - 365" and lo: "1 \<le> min_date self"
  shows "snd (kokuminnokyujitsu self h) = None"
proof -
  have e: "snd (iter_all_dates self) = None"
    using m lo by (simp add: iter_all_dates_def iter_all_dates_loop_end)
  have "list_all (\<lambda>d. snd (kokuminnokyujitsu_body self h d) = None) (fst (iter_all_dates self))"
    unfolding list_all_iff
  proof
    fix d assume "d \<in> set (fst (iter_all_dates self))"
    then have "min_date self \<le> d \<and> d \<le> max_date self"
      by (auto simp: iter_all_dates_def dest: iter_all_dates_loop_set)
    with lo show "snd (kokuminnokyujitsu_body self h d) = None" by (intro body_end k m) auto
  qed
  with e show ?thesis by (simp add: kokuminnokyujitsu_def gen_for_def gen_for_list_end)
qed

lemma u_holidays_ok:
  assumes "ok_range self" "1 \<le> min_date self"
  shows "\<exists>final. u_holidays self = Inr final"
proof -
  have n: "snd (base_chain self) = None" using assms(1) by (rule base_chain_end)
  then obtain base where b: "dict_of (base_chain self) = Inr base" by (simp add: dict_of_Inr)
  have "\<forall>k. dict_contains base k \<longrightarrow> k \<le> max_date self"
    using base_keys_in_range [OF b] by blast
  then have "snd (kokuminnokyujitsu self base) = None"
    using ok_range_max [OF assms(1)] assms(2) by (rule pass_end)
  with b show ?thesis by (simp add: u_holidays_eq)
qed

lemma yearly_le_last:
  assumes "yearly f" "y \<in> set all_years"
  shows "f y \<le> f 9999"
proof (cases "y = 9999")
  case True
  then show ?thesis by simp
next
  case False
  with assms(2) have "1 \<le> y" "y < 9999" by (simp_all add: set_all_years)
  then show ?thesis using yearly_strict_mono [OF assms(1), of y 9999] by simp
qed

lemma ganjitsu_overflow:
  assumes "ymd2ord 9999 1 1 < min_date self"
  shows "ganjitsu self = ([], Some ValueError)"
proof -
  have "\<forall>x\<in>set (map (fixed 1 1) all_years). min_date self > x"
    using yearly_le_last [of "fixed 1 1"] assms by fastforce
  then have d: "dropWhile (\<lambda>x. min_date self > x) (map (fixed 1 1) all_years) = []"
    by (simp only: dropWhile_eq_Nil_conv)
  show ?thesis
    by (simp add: ganjitsu_def labelled_def iter_dates_stream u_sorted_dates_filter_def
        gen_dropwhile_def gen_takewhile_def gen_map_def d)
qed

lemma u_holidays_overflow:
  assumes "ymd2ord 9999 1 1 < min_date self"
  shows "u_holidays self = Inl ValueError"
proof -
  have "base_chain self = ([], Some ValueError)"
    by (simp add: base_chain_def ganjitsu_overflow [OF assms] gen_chain_def)
  then show ?thesis by (simp add: u_holidays_def dict_of_def)
qed

lemma before_last_year:
  assumes "is_date d" "year_of d \<le> 9998"
  shows "d < ymd2ord 9999 1 1"
proof -
  from assms(1) have "1 \<le> d" by (simp add: is_date_def)
  then have "d \<le> days_before_year (year_of d + 1)" using year_of_bounds by blast
  also have "\<dots> \<le> days_before_year 9999" using assms(2) by (intro dby_mono) simp
  finally show ?thesis by (simp add: ymd2ord_9999)
qed

section \<open>Claims\<close>

text \<open>
  Claim C1 (every stepped equinox date of the range is put into the map, wherever the
  range lies): the code does not do this. The autumnal generator tests the other end of
  the range once in front of each loop, so the range of the year 2020 alone gets no
  autumnal equinox although the anchor stepped forward twice falls on 2020-09-22; and
  both generators compare with the upper end strictly, so a range that ends on
  2018-03-21 gets no vernal equinox although the anchor falls on that day.
\<close>

theorem equinox_dates_omitted:
  "datetime_date (datetime_of 2018 9 23 10 54 - minutes 2 + 2 * tropical_year) = ymd2ord 2020 9 22
   \<and> shubunnohi \<lparr>min_date = ymd2ord 2020 1 1, max_date = ymd2ord 2020 12 31\<rparr> = gen_empty
   \<and> datetime_date (datetime_of 2018 3 21 1 15 - minutes 8) = ymd2ord 2018 3 21
   \<and> shunbunnohi \<lparr>min_date = ymd2ord 2018 1 1, max_date = ymd2ord 2018 3 21\<rparr> = gen_empty"
proof -
  have a: "datetime_date (datetime_of 2018 9 23 10 54 - minutes 2 + 2 * tropical_year) = ymd2ord 2020 9 22"
    by (simp add: calendar_eval)
  have b: "shubunnohi \<lparr>min_date = ymd2ord 2020 1 1, max_date = ymd2ord 2020 12 31\<rparr> = gen_empty"
    by (simp add: shubunnohi_def calendar_eval DATE_00_def equinox_unfold)
  have c: "datetime_date (datetime_of 2018 3 21 1 15 - minutes 8) = ymd2ord 2018 3 21"
    by (simp add: calendar_eval)
  have d: "shunbunnohi \<lparr>min_date = ymd2ord 2018 1 1, max_date = ymd2ord 2018 3 21\<rparr> = gen_empty"
    by (simp add: shunbunnohi_def calendar_eval DATE_00_def equinox_unfold)
  from a b c d show ?thesis by blast
qed

text \<open>
  Claim C10: for every query range whose \<open>max_date\<close> lies in a year up to 9998, computing
  the map terminates. Every loop of the model is a total function (its termination is
  proved where it is defined); for two dates with the later end in a year up to 9998 the
  computation ends with a map, unless \<open>min_date\<close> lies after 9999-01-01, where it ends
  with the ValueError of the year 10000.
\<close>

theorem computation_terminates:
  assumes "is_date (min_date self)" "is_date (max_date self)" "year_of (max_date self) \<le> 9998"
  shows "(\<exists>final. u_holidays self = Inr final)
    \<or> (ymd2ord 9999 1 1 < min_date self \<and> u_holidays self = Inl ValueError)"
proof (cases "min_date self \<le> ymd2ord 9999 1 1")
  case True
  have "max_date self < ymd2ord 9999 1 1" using assms(2,3) by (rule before_last_year)
  with True have "ok_range self" by (simp add: ok_range_def)
  moreover have "1 \<le> min_date self" using assms(1) by (simp add: is_date_def)
  ultimately show ?thesis using u_holidays_ok by blast
next
  case False
  then show ?thesis using u_holidays_overflow [of self] by simp
qed

theorem computation_terminates_witness:
  "is_date (ymd2ord 2018 1 1) \<and> is_date (ymd2ord 2018 12 31)
   \<and> year_of (ymd2ord 2018 12 31) \<le> 9998
   \<and> (\<exists>final. u_holidays \<lparr>min_date = ymd2ord 2018 1 1, max_date = ymd2ord 2018 12 31\<rparr> = Inr final)"
proof -
  have a: "is_date (ymd2ord 2018 1 1)" "is_date (ymd2ord 2018 12 31)"
    by (simp_all add: is_date_def calendar_numbers)
  have b: "year_of (ymd2ord 2018 12 31) \<le> 9998" by (simp add: year_of_def calendar_numbers)
  have c: "\<not> ymd2ord 9999 1 1 < ymd2ord 2018 1 1" by (simp add: calendar_numbers)
  from computation_terminates [of "\<lparr>min_date = ymd2ord 2018 1 1, max_date = ymd2ord 2018 12 31\<rparr>"]
    a b c show ?thesis by simp
qed

end
